(* ===== verification/Prelude.thy ===== *)
theory Prelude
  imports Main "HOL-Library.Word"
begin

text \<open>
  Shared vocabulary of the coinquery development.  Go functions that return an error, panic
  or terminate the process are modelled as values of a sum type: \<open>Inl\<close> carries the fault,
  \<open>Inr\<close> the returned value.  Go's 64 bit \<open>int\<close>/\<open>int64\<close> arithmetic is written over
  \<open>int\<close> with an explicit wrap (\<open>i64\<close>) wherever a value is not bounded by the data.
  Go's \<open>string\<close> is a byte sequence, as is Isabelle's \<open>string\<close>; \<open>byte\<close> is an
  8 bit word.
\<close>

unbundle bit_operations_syntax

named_theorems go_simps "equations that run the result monad and the Go library functions"
named_theorems bits_simps "facts on the most-significant-first bit lists of machine words"

section \<open>Errors, panics and process exit\<close>

text \<open>
  \<open>ErrNew\<close> is \<open>errors.New\<close>, \<open>ErrWrap\<close> is \<open>errors.Wrap\<close> and \<open>errors.Wrapf\<close> of
  \<open>github.com/pkg/errors\<close> (the annotation, then the cause).
\<close>

datatype gerror = ErrNew string | ErrWrap string gerror

datatype fault = Err gerror | Panic string | Exit string

type_synonym 'a result = "fault + 'a"
type_synonym byte = "8 word"

definition rbind :: "'a result \<Rightarrow> ('a \<Rightarrow> 'b result) \<Rightarrow> 'b result" where
  "rbind m f = (case m of Inl e \<Rightarrow> Inl e | Inr x \<Rightarrow> f x)"

text \<open>\<open>errors.Wrap\<close> on the error path; panics and exits pass through unchanged.\<close>

fun wrapf :: "string \<Rightarrow> 'a result \<Rightarrow> 'a result" where
  "wrapf msg (Inl (Err e)) = Inl (Err (ErrWrap msg e))"
| "wrapf msg r = r"

text \<open>\<open>if err != nil { log.Fatal(err, ...) }\<close>: the process terminates.\<close>

fun fatal :: "string \<Rightarrow> 'a result \<Rightarrow> 'a result" where
  "fatal msg (Inl (Err e)) = Inl (Exit msg)"
| "fatal msg r = r"

text \<open>\<open>err.Error()\<close>, and \<open>errors.New(err.Error())\<close>.\<close>

fun error_text :: "gerror \<Rightarrow> string" where
  "error_text (ErrNew m) = m"
| "error_text (ErrWrap m e) = m @ '': '' @ error_text e"

fun renew :: "'a result \<Rightarrow> 'a result" where
  "renew (Inl (Err e)) = Inl (Err (ErrNew (error_text e)))"
| "renew r = r"

fun is_ok :: "'a result \<Rightarrow> bool" where
  "is_ok (Inr x) = True"
| "is_ok (Inl e) = False"

fun is_panic :: "'a result \<Rightarrow> bool" where
  "is_panic (Inl (Panic m)) = True"
| "is_panic r = False"

lemma rbind_simps [simp, go_simps]:
  "rbind (Inl e) f = Inl e"
  "rbind (Inr x) f = f x"
  by (simp_all add: rbind_def)

lemma rbind_eq_Inr_conv [simp]:
  "rbind m f = Inr y \<longleftrightarrow> (\<exists>x. m = Inr x \<and> f x = Inr y)"
  by (cases m) auto

lemma rbind_assoc: "rbind (rbind m f) g = rbind m (\<lambda>x. rbind (f x) g)"
  by (cases m) auto

lemma wrapf_eq_Inr_conv [simp]: "wrapf msg r = Inr y \<longleftrightarrow> r = Inr y"
  by (cases "(msg, r)" rule: wrapf.cases) auto

lemma fatal_eq_Inr_conv [simp]: "fatal msg r = Inr y \<longleftrightarrow> r = Inr y"
  by (cases "(msg, r)" rule: fatal.cases) auto

lemma renew_eq_Inr_conv [simp]: "renew r = Inr y \<longleftrightarrow> r = Inr y"
  by (cases r rule: renew.cases) auto

lemma is_ok_conv: "is_ok r \<longleftrightarrow> (\<exists>x. r = Inr x)"
  by (cases r) auto

text \<open>
  A Go loop \<open>for _, x := range xs { v, err := f(x); if err != nil { return err };
  out = append(out, v) }\<close>.
\<close>

fun rmapM :: "('a \<Rightarrow> 'b result) \<Rightarrow> 'a list \<Rightarrow> 'b list result" where
  "rmapM f [] = Inr []"
| "rmapM f (x # xs) = rbind (f x) (\<lambda>y. rbind (rmapM f xs) (\<lambda>ys. Inr (y # ys)))"

lemma rmapM_Inr_iff: "rmapM f xs = Inr ys \<longleftrightarrow> list_all2 (\<lambda>x y. f x = Inr y) xs ys"
  by (induction xs arbitrary: ys) (auto simp: list_all2_Cons1)

lemma rmapM_total: "(\<And>x. x \<in> set xs \<Longrightarrow> f x = Inr (g x)) \<Longrightarrow> rmapM f xs = Inr (map g xs)"
  by (induction xs) auto

section \<open>Machine integers\<close>

text \<open>The two's complement value of an integer reduced to 64 bits.\<close>

definition i64 :: "int \<Rightarrow> int" where
  "i64 x = (x + 2 ^ 63) mod 2 ^ 64 - 2 ^ 63"

definition in_i64 :: "int \<Rightarrow> bool" where
  "in_i64 x \<longleftrightarrow> - (2 ^ 63) \<le> x \<and> x < 2 ^ 63"

lemma i64_in_range [simp]: "in_i64 (i64 x)"
proof -
  have "0 \<le> (x + 2 ^ 63) mod 2 ^ 64" "(x + 2 ^ 63) mod 2 ^ 64 < 2 ^ 64"
    by simp_all
  then show ?thesis by (simp add: i64_def in_i64_def)
qed

lemma i64_id: "in_i64 x \<Longrightarrow> i64 x = x"
  by (simp add: i64_def in_i64_def)

text \<open>Go's integer division and remainder truncate towards zero.\<close>

definition go_div :: "int \<Rightarrow> int \<Rightarrow> int" where
  "go_div a b = sgn a * sgn b * (\<bar>a\<bar> div \<bar>b\<bar>)"

definition go_rem :: "int \<Rightarrow> int \<Rightarrow> int" where
  "go_rem a b = a - b * go_div a b"

lemma go_div_nonneg: "0 \<le> a \<Longrightarrow> 0 < b \<Longrightarrow> go_div a b = a div b"
  by (cases "a = 0") (auto simp: go_div_def)

text \<open>Conversions between the bytes of a Go string and machine bytes.\<close>

definition byte_of :: "char \<Rightarrow> byte" where
  "byte_of ch = of_char ch"

definition char_at :: "byte \<Rightarrow> char" where
  "char_at b = char_of (unat b)"

lemma unat_byte_of [simp]: "unat (byte_of ch) = of_char ch"
proof -
  have "of_char ch = (word_of_nat (of_char ch) :: byte)"
    by (simp add: of_char_def)
  then show ?thesis
    by (simp add: byte_of_def unat_of_nat take_bit_eq_mod)
qed

lemma char_at_byte_of [simp]: "char_at (byte_of ch) = ch"
  by (simp add: char_at_def)

text \<open>Widening a byte to a machine word, and values that fit in a number of bits.\<close>

lemma unat_ucast_byte [simp]: "unat (ucast (b :: byte) :: 64 word) = unat b"
proof -
  have "unat b < 2 ^ 8" using unsigned_less [of b] by simp
  then show ?thesis
    by (simp add: unsigned_ucast_eq take_bit_nat_eq_self_iff)
qed

lemma ucast_byte_inj [simp]: "(ucast (x :: byte) :: 64 word) = ucast y \<longleftrightarrow> x = y"
  by (metis unat_ucast_byte word_unat_eq_iff)

lemma take_bit_stable:
  fixes c :: "'a::len word"
  shows "take_bit m c = c \<Longrightarrow> m \<le> n \<Longrightarrow> take_bit n c = c"
  by (metis min.absorb2 take_bit_take_bit)

lemma take_bit_self_iff:
  fixes w :: "'a::len word"
  shows "take_bit n w = w \<longleftrightarrow> unat w < 2 ^ n"
  by (simp add: word_unat_eq_iff unsigned_take_bit_eq take_bit_nat_eq_self_iff)

lemma xor_cancel [simp]:
  fixes a b c :: "'a::len word"
  shows "a XOR c = b XOR c \<longleftrightarrow> a = b" "c XOR a = c XOR b \<longleftrightarrow> a = b"
  by (metis xor.assoc xor.commute xor.right_neutral xor_self_eq)+

lemma xor_eq_0_iff [simp]:
  fixes a b :: "'a::len word"
  shows "a XOR b = 0 \<longleftrightarrow> a = b"
  by (metis xor_cancel(1) xor_self_eq)

lemma xor_self_absorb [simp]:
  fixes a b :: "'a::len word"
  shows "a = a XOR b \<longleftrightarrow> b = 0"
  by (metis xor.right_neutral xor_cancel(2))

lemma xor_pair_cancel:
  fixes a b :: "'a::len word"
  shows "(a XOR b) XOR a = b" "a XOR (b XOR a) = b" "a XOR (a XOR b) = b"
  by (metis xor.assoc xor.commute xor.right_neutral xor_self_eq)+

section \<open>Lists\<close>

lemma sorted_distinct_set_unique_key:
  assumes "sorted (map f xs)" "sorted (map f ys)" "set xs = set ys"
    "distinct xs" "distinct ys" "inj_on f (set xs)"
  shows "xs = ys"
proof -
  have "set (map f xs) = set (map f ys)" using assms(3) by simp
  moreover have "distinct (map f xs)" "distinct (map f ys)"
    using assms by (auto simp: distinct_map)
  ultimately have "map f xs = map f ys"
    using assms(1,2) by (intro sorted_distinct_set_unique)
  then show ?thesis
    by (rule map_inj_on) (use assms(3,6) in simp)
qed

lemma list_all2_map_same: "list_all2 (\<lambda>x y. y = f x) xs ys \<longleftrightarrow> ys = map f xs"
  by (induction xs arbitrary: ys) (auto simp: list_all2_Cons1)

end
