(* ===== verification/Utxo_Types.thy ===== *)
theory Utxo_Types
  imports Prelude
begin

text \<open>
  \<open>V2/pkg/blockchain/utxo/types.go\<close> and the record types of \<open>V2/pkg/postgres/postgres.go\<close>: what the
  node returns, and what the database layer returns.  A \<open>json.Number\<close> is its text.  A struct that
  embeds another is a record extension.
\<close>

section \<open>Values returned by the node\<close>

record ChainInfo =
  ci_Chain :: string
  ci_Blocks :: int
  ci_Headers :: int
  ci_BestBlockHash :: string
  ci_Difficulty :: string
  ci_SizeOnDisk :: int
  ci_Version :: string
  ci_Subversion :: string
  ci_ProtocolVersion :: string
  ci_Timeoffset :: int
  ci_Warnings :: string

record ChainTip =
  ct_Height :: int
  ct_Hash :: string
  ct_Branchlen :: string
  ct_Status :: string

record BlockchainInfo =
  bi_Chain :: string
  bi_Blocks :: int
  bi_Headers :: int
  bi_BestBlockHash :: string
  bi_Difficulty :: string
  bi_SizeOnDisk :: int
  bi_Warnings :: string

record NetworkInfo =
  ni_Version :: string
  ni_Subversion :: string
  ni_ProtocolVersion :: string
  ni_Timeoffset :: int
  ni_Warnings :: string

record BlockHeader =
  b_Hash :: string
  b_Height :: int
  b_Time :: int
  b_MedianTime :: int
  b_Nonce :: int
  b_PrevHash :: string
  b_NextHash :: string
  b_Bits :: string
  b_Difficulty :: string
  b_Chainwork :: string
  b_Version :: int
  b_VersionHex :: string
  b_MerkleRoot :: string
  b_Size :: int
  b_StrippedSize :: int
  b_Weight :: int
  b_TxCount :: int
  b_IsOrphan :: bool

text \<open>
  A \<open>nil\<close> list of witnesses is marshalled to \<open>null\<close>, an empty one to \<open>[]\<close>: the former is \<open>None\<close>.
\<close>

record Vin =
  vin_TxID :: string
  vin_Vout :: int
  vin_Asm :: string
  vin_Hex :: string
  vin_TxInWitness :: "string list option"
  vin_Sequence :: int
  vin_Coinbase :: string

record Vout =
  vout_Value :: string
  vout_N :: int
  vout_Asm :: string
  vout_Hex :: string
  vout_ReqSigs :: int
  vout_Type :: string
  vout_Addresses :: "string list"

record Tx =
  tx_TxID :: string
  tx_Hash :: string
  tx_Version :: int
  tx_Size :: int
  tx_VSize :: int
  tx_Weight :: int
  tx_Locktime :: string
  tx_Vins :: "Vin list"
  tx_Vouts :: "Vout list"
  tx_Hex :: string

record Block = BlockHeader +
  b_Txs :: "Tx list"

record BlockNormal = BlockHeader +
  bn_Txs :: "string list"

record MempoolTx =
  m_Hash :: string
  m_Fails :: int

text \<open>\<open>Block{BlockHeader: h, Txs: txs}\<close> and the header of a block.\<close>

definition with_txs :: "BlockHeader \<Rightarrow> Tx list \<Rightarrow> Block" where
  "with_txs h ts = BlockHeader.extend h (Block.fields ts)"

definition header_of :: "'a BlockHeader_scheme \<Rightarrow> BlockHeader" where
  "header_of b = BlockHeader.truncate b"

lemma with_txs_sel [simp]:
  "b_Height (with_txs h ts) = b_Height h" "b_Hash (with_txs h ts) = b_Hash h"
  "b_PrevHash (with_txs h ts) = b_PrevHash h" "b_Txs (with_txs h ts) = ts"
  by (simp_all add: with_txs_def BlockHeader.defs Block.defs)

lemma header_of_sel [simp]:
  "b_Height (header_of b) = b_Height b" "b_Hash (header_of b) = b_Hash b"
  by (simp_all add: header_of_def BlockHeader.defs)

section \<open>Values returned by the database layer\<close>

record Input =
  in_Vin :: int
  in_SpentTx :: string
  in_SpentVout :: int
  in_Asm :: string
  in_Hex :: string
  in_Sequence :: int
  in_TxInWitness :: "string list option"
  in_Coinbase :: string

record Output =
  out_Vout :: int
  out_SatAmount :: int
  out_Asm :: string
  out_Hex :: string
  out_ReqSigs :: int
  out_Type :: string
  out_Address :: string
  out_Addresses :: "string list"

record DbTx =
  dtx_ID :: int
  dtx_TxID :: string
  dtx_Hash :: string
  dtx_Version :: int
  dtx_Size :: int
  dtx_VSize :: int
  dtx_Weight :: int
  dtx_Locktime :: int
  dtx_Inputs :: "Input list"
  dtx_Outputs :: "Output list"
  dtx_BlockHash :: string
  dtx_BlockHeight :: int
  dtx_Time :: string
  dtx_BlockTime :: string
  dtx_Mempool :: bool

record PendingTx =
  ptx_ID :: int
  ptx_TxID :: string

record SpentTxDetails =
  SpentTxID :: string
  SpentIndex :: int
  SpentHeight :: int

record Utxo =
  u_Vout :: int
  u_Hex :: string
  u_ReqSigs :: int
  u_Type :: string
  u_Address :: string
  u_SatAmount :: int
  u_TxID :: string
  u_BlockHeight :: int
  u_Timestamp :: string

record RawTx =
  raw_Hex :: string

end
