(* ===== verification/Config.thy ===== *)
theory Config
  imports Prelude
begin

text \<open>
  \<open>V2/config/config.go\<close>: the configuration records and the selection of the per-coin settings.
  Reading and unmarshalling the file is input; \<open>Get\<close> starts from the outcome of these steps.
\<close>

record Retry_cfg =
  Attempts :: int
  Sleep :: int

record BaseDB =
  MaxConns :: int
  MaxConnLifetime :: int
  db_Threads :: int
  db_Retry :: Retry_cfg
  db_Timeout :: int

record CoinDB =
  ReadOnly_uri :: string
  ReadWrite_uri :: string

text \<open>A Go struct that embeds two others has the fields of both.\<close>

record DB_cfg =
  URI :: string
  DB_BaseDB :: BaseDB
  DB_CoinDB :: CoinDB

record BaseRPC =
  rpc_Threads :: int
  rpc_Timeout :: int
  rpc_Retry :: Retry_cfg

record CoinRPC =
  URL :: string
  User :: string
  Password :: string

record RPC_cfg =
  RPC_BaseRPC :: BaseRPC
  RPC_CoinRPC :: CoinRPC

record ZMQ_cfg =
  zmq_Timeout :: int
  SubURL :: string
  Subscriptions :: "string list"

record Coin_cfg =
  coin_Name :: string
  coin_RPC :: CoinRPC
  coin_ZMQ :: ZMQ_cfg
  coin_DB :: CoinDB

record Config =
  cfg_DB :: BaseDB
  cfg_RPC :: BaseRPC
  cfg_Coins :: "Coin_cfg list"

text \<open>
  \<open>Get\<close>: \<open>stat\<close> is false when the file does not exist; \<open>open_err\<close>, \<open>read\<close> and \<open>unmarshal\<close> are the
  outcomes of the calls on it.  Every error is turned into a new one with the same text.
\<close>

definition Get_config ::
  "bool \<Rightarrow> 'f result \<Rightarrow> ('f \<Rightarrow> 'd result) \<Rightarrow> ('d \<Rightarrow> Config result) \<Rightarrow> Config result" where
  "Get_config exists opened readAll unmarshal =
    (if \<not> exists then Inl (Err (ErrNew ''no such file or directory''))
     else rbind (renew opened) (\<lambda>f. rbind (renew (readAll f)) (\<lambda>d. renew (unmarshal d))))"

text \<open>\<open>DatabaseType\<close> is an integer type with two named constants.\<close>

datatype DatabaseType = ReadOnly | ReadWrite | OtherDatabaseType int

fun DatabaseType_String :: "DatabaseType \<Rightarrow> string result" where
  "DatabaseType_String ReadOnly = Inr ''ReadOnly''"
| "DatabaseType_String ReadWrite = Inr ''ReadWrite''"
| "DatabaseType_String (OtherDatabaseType a) = Inl (Panic ''index out of range'')"

definition no_CoinDB :: CoinDB where
  "no_CoinDB = \<lparr>ReadOnly_uri = [], ReadWrite_uri = []\<rparr>"

text \<open>
  The \<open>default\<close> branch formats the value with \<open>%s\<close>; \<open>fmt\<close> recovers the panic of \<open>String\<close> inside
  the message, so an error is returned.
\<close>

fun GetDBConfig :: "Config \<Rightarrow> DatabaseType \<Rightarrow> Coin_cfg \<Rightarrow> DB_cfg result" where
  "GetDBConfig c ReadOnly cc =
    Inr \<lparr>URI = ReadOnly_uri (coin_DB cc), DB_BaseDB = cfg_DB c, DB_CoinDB = no_CoinDB\<rparr>"
| "GetDBConfig c ReadWrite cc =
    Inr \<lparr>URI = ReadWrite_uri (coin_DB cc), DB_BaseDB = cfg_DB c, DB_CoinDB = no_CoinDB\<rparr>"
| "GetDBConfig c (OtherDatabaseType a) cc =
    Inl (Err (ErrNew ''unable to find db configuration for type''))"

definition GetRPCConfig :: "Config \<Rightarrow> Coin_cfg \<Rightarrow> RPC_cfg" where
  "GetRPCConfig c cc = \<lparr>RPC_BaseRPC = cfg_RPC c, RPC_CoinRPC = coin_RPC cc\<rparr>"

fun find_coin :: "Coin_cfg list \<Rightarrow> string \<Rightarrow> Coin_cfg option" where
  "find_coin [] coin = None"
| "find_coin (v # vs) coin = (if coin_Name v = coin then Some v else find_coin vs coin)"

definition GetCoin :: "Config \<Rightarrow> string \<Rightarrow> Coin_cfg result" where
  "GetCoin c coin =
    (case find_coin (cfg_Coins c) coin of
       Some v \<Rightarrow> Inr v
     | None \<Rightarrow> Inl (Err (ErrNew ''unable to find configuration for coin'')))"

definition ListCoins :: "Config \<Rightarrow> string list" where
  "ListCoins c = map coin_Name (cfg_Coins c)"

lemma find_coin_Some:
  "find_coin vs coin = Some v \<Longrightarrow> v \<in> set vs \<and> coin_Name v = coin"
  by (induction vs) (auto split: if_splits)

lemma find_coin_None: "find_coin vs coin = None \<longleftrightarrow> coin \<notin> coin_Name ` set vs"
  by (induction vs) auto

lemma GetCoin_ok_iff: "is_ok (GetCoin c coin) \<longleftrightarrow> coin \<in> set (ListCoins c)"
  using find_coin_None [of "cfg_Coins c" coin]
  by (cases "find_coin (cfg_Coins c) coin") (auto simp: GetCoin_def ListCoins_def)

lemma GetCoin_name: "GetCoin c coin = Inr v \<Longrightarrow> v \<in> set (cfg_Coins c) \<and> coin_Name v = coin"
  using find_coin_Some by (auto simp: GetCoin_def split: option.splits)

end
