(* ===== verification/GoStrings.thy ===== *)
theory GoStrings
  imports Prelude
begin

text \<open>
  The parts of Go's \<open>strings\<close>, \<open>strconv\<close> and \<open>encoding/hex\<close> packages that coinquery calls.
  Functions that classify letters (\<open>ToUpper\<close>, \<open>ToLower\<close>, \<open>TrimSpace\<close>) follow the ASCII rules of
  the library; bytes above 127 are left alone.  \<open>ParseInt\<close> and \<open>Atoi\<close> return a value and an
  error as in Go, because callers use the value even when the error is set.
\<close>

section \<open>Package \<open>strings\<close>\<close>

text \<open>\<open>strings.Split(s, sep)\<close> for a separator of one byte.\<close>

fun Split :: "string \<Rightarrow> char \<Rightarrow> string list" where
  "Split [] sep = [[]]"
| "Split (c # s) sep =
    (if c = sep then [] # Split s sep
     else case Split s sep of [] \<Rightarrow> [[c]] | p # ps \<Rightarrow> (c # p) # ps)"

text \<open>\<open>strings.Join(parts, sep)\<close>.\<close>

fun Join :: "string list \<Rightarrow> string \<Rightarrow> string" where
  "Join [] sep = []"
| "Join [p] sep = p"
| "Join (p # ps) sep = p @ sep @ Join ps sep"

definition HasPrefix :: "string \<Rightarrow> string \<Rightarrow> bool" where
  "HasPrefix s p \<longleftrightarrow> take (length p) s = p"

definition HasSuffix :: "string \<Rightarrow> string \<Rightarrow> bool" where
  "HasSuffix s p \<longleftrightarrow> length p \<le> length s \<and> drop (length s - length p) s = p"

text \<open>\<open>strings.Replace(s, old, new, 1)\<close> for a nonempty \<open>old\<close>.\<close>

fun Replace1 :: "string \<Rightarrow> string \<Rightarrow> string \<Rightarrow> string" where
  "Replace1 [] old new = []"
| "Replace1 (c # s) old new =
    (if HasPrefix (c # s) old then new @ drop (length old) (c # s)
     else c # Replace1 s old new)"

text \<open>\<open>strings.Repeat\<close> panics on a negative count.\<close>

definition Repeat :: "string \<Rightarrow> int \<Rightarrow> string result" where
  "Repeat s n =
    (if n < 0 then Inl (Panic ''strings: negative Repeat count'')
     else Inr (concat (replicate (nat n) s)))"

definition is_space :: "char \<Rightarrow> bool" where
  "is_space c \<longleftrightarrow> c \<in> {CHR 0x09, CHR 0x0A, CHR 0x0B, CHR 0x0C, CHR 0x0D, CHR '' ''}"

definition TrimSpace :: "string \<Rightarrow> string" where
  "TrimSpace s = rev (dropWhile is_space (rev (dropWhile is_space s)))"

definition TrimSuffix :: "string \<Rightarrow> string \<Rightarrow> string" where
  "TrimSuffix s p = (if HasSuffix s p then take (length s - length p) s else s)"

definition upper_char :: "char \<Rightarrow> char" where
  "upper_char c =
    (let n = (of_char c :: nat) in if 97 \<le> n \<and> n \<le> 122 then char_of (n - 32) else c)"

definition lower_char :: "char \<Rightarrow> char" where
  "lower_char c =
    (let n = (of_char c :: nat) in if 65 \<le> n \<and> n \<le> 90 then char_of (n + 32) else c)"

definition ToUpper :: "string \<Rightarrow> string" where
  "ToUpper s = map upper_char s"

definition ToLower :: "string \<Rightarrow> string" where
  "ToLower s = map lower_char s"

subsection \<open>Laws\<close>

lemma Split_not_Nil [simp]: "Split s sep \<noteq> []"
  by (induction s) (auto split: list.splits)

lemma Split_no_sep: "sep \<notin> set s \<Longrightarrow> Split s sep = [s]"
  by (induction s) auto

lemma Split_append: "sep \<notin> set p \<Longrightarrow> Split (p @ sep # s) sep = p # Split s sep"
  by (induction p) auto

lemma Split_Join:
  assumes "ps \<noteq> []" "\<forall>p \<in> set ps. sep \<notin> set p"
  shows "Split (Join ps [sep]) sep = ps"
  using assms
  by (induction ps "[sep]" rule: Join.induct) (auto simp: Split_no_sep Split_append)

lemma Join_Split: "Join (Split s sep) [sep] = s"
proof (induction s)
  case (Cons c s)
  obtain p ps where "Split s sep = p # ps"
    by (cases "Split s sep") auto
  then show ?case using Cons by (cases ps) auto
qed simp

lemma Split_parts: "p \<in> set (Split s sep) \<Longrightarrow> sep \<notin> set p"
proof (induction s arbitrary: p)
  case (Cons c s)
  then show ?case by (cases "Split s sep") (auto split: if_splits)
qed simp

lemma Replace1_dot:
  "c \<notin> set p \<Longrightarrow> Replace1 (p @ c # s) [c] [] = p @ s"
  by (induction p) (auto simp: HasPrefix_def)

lemma Replace1_absent: "c \<notin> set s \<Longrightarrow> Replace1 s [c] new = s"
  by (induction s) (auto simp: HasPrefix_def)

lemma Repeat_nonneg [simp]: "0 \<le> n \<Longrightarrow> Repeat [c] n = Inr (replicate (nat n) c)"
proof -
  have "concat (replicate k [c]) = replicate k c" for k
    by (induction k) auto
  then show "0 \<le> n \<Longrightarrow> ?thesis" by (simp add: Repeat_def)
qed

lemma Repeat_neg [simp]: "n < 0 \<Longrightarrow> is_panic (Repeat s n)"
  by (simp add: Repeat_def)

section \<open>Package \<open>strconv\<close>\<close>

datatype num_error = ErrSyntax | ErrRange

definition digit_val :: "char \<Rightarrow> nat option" where
  "digit_val c =
    (let n = (of_char c :: nat) in if 48 \<le> n \<and> n \<le> 57 then Some (n - 48) else None)"

definition digit_chr :: "nat \<Rightarrow> char" where
  "digit_chr d = char_of (48 + d)"

text \<open>
  The digit loop of \<open>strconv.ParseUint\<close> in base 10 with 64 bits: the loop stops at the first
  character that is not a digit (syntax error, value 0) or at the first digit that overflows
  (range error, largest value), whichever comes first.
\<close>

definition maxUint64 :: nat where
  "maxUint64 = 2 ^ 64 - 1"

fun ParseUint_loop :: "nat \<Rightarrow> string \<Rightarrow> nat \<times> num_error option" where
  "ParseUint_loop n [] = (n, None)"
| "ParseUint_loop n (c # s) =
    (case digit_val c of
       None \<Rightarrow> (0, Some ErrSyntax)
     | Some d \<Rightarrow>
         if n \<ge> maxUint64 div 10 + 1 then (maxUint64, Some ErrRange)
         else if n * 10 + d > maxUint64 then (maxUint64, Some ErrRange)
         else ParseUint_loop (n * 10 + d) s)"

definition ParseUint :: "string \<Rightarrow> nat \<times> num_error option" where
  "ParseUint s = (if s = [] then (0, Some ErrSyntax) else ParseUint_loop 0 s)"

definition ParseInt :: "string \<Rightarrow> int \<times> num_error option" where
  "ParseInt s =
    (if s = [] then (0, Some ErrSyntax)
     else
       let neg = (hd s = CHR ''-'');
           s' = (if hd s = CHR ''+'' \<or> hd s = CHR ''-'' then tl s else s);
           (un, err) = ParseUint s'
       in if err = Some ErrSyntax then (0, err)
          else if \<not> neg \<and> un \<ge> 2 ^ 63 then (2 ^ 63 - 1, Some ErrRange)
          else if neg \<and> un > 2 ^ 63 then (- (2 ^ 63), Some ErrRange)
          else (if neg then - int un else int un, None))"

text \<open>\<open>strconv.Atoi\<close> on a 64 bit platform.\<close>

definition Atoi :: "string \<Rightarrow> int \<times> num_error option" where
  "Atoi s = ParseInt s"

text \<open>Decimal digits, most significant first, and \<open>strconv.Itoa\<close>.\<close>

fun digits :: "nat \<Rightarrow> string" where
  "digits n = (if n < 10 then [digit_chr n] else digits (n div 10) @ [digit_chr (n mod 10)])"

declare digits.simps [simp del]

lemma digits_rec [go_simps]:
  "n < 10 \<Longrightarrow> digits n = [digit_chr n]"
  "10 \<le> n \<Longrightarrow> digits n = digits (n div 10) @ [digit_chr (n mod 10)]"
  by (subst digits.simps; simp)+

lemma digit_chr_eval [go_simps]:
  "digit_chr 0 = CHR ''0''" "digit_chr (Suc 0) = CHR ''1''" "digit_chr 1 = CHR ''1''"
  "digit_chr 2 = CHR ''2''" "digit_chr 3 = CHR ''3''" "digit_chr 4 = CHR ''4''"
  "digit_chr 5 = CHR ''5''" "digit_chr 6 = CHR ''6''" "digit_chr 7 = CHR ''7''"
  "digit_chr 8 = CHR ''8''" "digit_chr 9 = CHR ''9''"
  by code_simp+

lemma replicate_numeral [go_simps]:
  "replicate (numeral k) x = x # replicate (pred_numeral k) x"
  by (simp add: numeral_eq_Suc)

definition Itoa :: "int \<Rightarrow> string" where
  "Itoa n = (if n < 0 then CHR ''-'' # digits (nat (- n)) else digits (nat n))"

subsection \<open>Decimal round trip\<close>

definition all_digits :: "string \<Rightarrow> bool" where
  "all_digits s \<longleftrightarrow> list_all (\<lambda>c. digit_val c \<noteq> None) s"

definition dec_val :: "nat \<Rightarrow> string \<Rightarrow> nat" where
  "dec_val n s = foldl (\<lambda>n c. n * 10 + the (digit_val c)) n s"

lemma digit_val_chr [simp]: "d < 10 \<Longrightarrow> digit_val (digit_chr d) = Some d"
  by (simp add: digit_val_def digit_chr_def)

lemma dec_val_simps [simp]:
  "dec_val n [] = n"
  "dec_val n (c # s) = dec_val (n * 10 + the (digit_val c)) s"
  "dec_val n (s @ t) = dec_val (dec_val n s) t"
  by (simp_all add: dec_val_def)

lemma all_digits_simps [simp]:
  "all_digits []"
  "all_digits (c # s) \<longleftrightarrow> digit_val c \<noteq> None \<and> all_digits s"
  "all_digits (s @ t) \<longleftrightarrow> all_digits s \<and> all_digits t"
  by (simp_all add: all_digits_def)

lemma dec_val_mono: "n \<le> dec_val n s"
proof (induction s arbitrary: n)
  case (Cons c s)
  have "n \<le> n * 10 + the (digit_val c)" by simp
  then show ?case using Cons [of "n * 10 + the (digit_val c)"] by simp
qed simp

lemma dec_val_shift: "dec_val n s = n * 10 ^ length s + dec_val 0 s"
proof (induction s arbitrary: n)
  case (Cons c s)
  show ?case
    using Cons [of "n * 10 + the (digit_val c)"] Cons [of "the (digit_val c)"]
    by (simp add: algebra_simps)
qed simp

lemma dec_val_zeros [simp]: "dec_val n (replicate k CHR ''0'') = n * 10 ^ k"
proof (induction k arbitrary: n)
  case (Suc k)
  have "digit_val CHR ''0'' = Some 0" by (simp add: digit_val_def)
  then show ?case using Suc [of "n * 10"] by simp
qed simp

lemma all_digits_zeros [simp]: "all_digits (replicate k CHR ''0'')"
  by (induction k) (auto simp: digit_val_def)

lemma ParseUint_loop_ok:
  assumes "all_digits s" "dec_val n s \<le> maxUint64"
  shows "ParseUint_loop n s = (dec_val n s, None)"
  using assms
proof (induction s arbitrary: n)
  case (Cons c s)
  then obtain d where d: "digit_val c = Some d" by auto
  have "n * 10 + d \<le> maxUint64"
    using Cons.prems(2) dec_val_mono [of "n * 10 + d" s] d by simp
  moreover from this have "n < maxUint64 div 10 + 1"
    by (simp add: less_Suc_eq_le less_eq_div_iff_mult_less_eq)
  ultimately show ?case using Cons d by simp
qed simp

lemma digits_ok [simp]: "all_digits (digits n)" "dec_val 0 (digits n) = n" "digits n \<noteq> []"
proof (induction n rule: digits.induct)
  case (1 n)
  {
    case 1
    then show ?case using "1.IH"(1) by (subst digits.simps) simp
  next
    case 2
    then show ?case using "1.IH"(2) by (subst digits.simps) simp
  next
    case 3
    then show ?case by (subst digits.simps) simp
  }
qed

lemma all_digits_no_sign:
  assumes "all_digits s" "s \<noteq> []"
  shows "hd s \<noteq> CHR ''-''" "hd s \<noteq> CHR ''+''"
  using assms by (cases s; auto simp: digit_val_def)+

lemma all_digits_notin:
  assumes "all_digits s" "digit_val c = None"
  shows "c \<notin> set s"
  using assms by (induction s) auto

lemma ParseInt_digits:
  assumes "all_digits s" "s \<noteq> []" "dec_val 0 s < 2 ^ 63"
  shows "ParseInt s = (int (dec_val 0 s), None)"
proof -
  have "ParseUint s = (dec_val 0 s, None)"
    using assms ParseUint_loop_ok [of s 0] by (simp add: ParseUint_def maxUint64_def)
  then show ?thesis
    using assms all_digits_no_sign [OF assms(1,2)] by (simp add: ParseInt_def)
qed

lemma ParseInt_neg_digits:
  assumes "all_digits s" "s \<noteq> []" "dec_val 0 s \<le> 2 ^ 63"
  shows "ParseInt (CHR ''-'' # s) = (- int (dec_val 0 s), None)"
proof -
  have "ParseUint s = (dec_val 0 s, None)"
    using assms ParseUint_loop_ok [of s 0] by (simp add: ParseUint_def maxUint64_def)
  then show ?thesis
    using assms by (simp add: ParseInt_def)
qed

lemma Atoi_Itoa: "in_i64 n \<Longrightarrow> Atoi (Itoa n) = (n, None)"
  using ParseInt_digits [of "digits (nat n)"] ParseInt_neg_digits [of "digits (nat (- n))"]
  by (auto simp: Atoi_def Itoa_def in_i64_def)

lemma Itoa_inject: "Itoa m = Itoa n \<Longrightarrow> in_i64 m \<Longrightarrow> in_i64 n \<Longrightarrow> m = n"
  by (metis Atoi_Itoa fst_conv)

section \<open>Package \<open>encoding/hex\<close>\<close>

definition hex_val :: "char \<Rightarrow> nat option" where
  "hex_val c =
    (let n = (of_char c :: nat) in
     if 48 \<le> n \<and> n \<le> 57 then Some (n - 48)
     else if 97 \<le> n \<and> n \<le> 102 then Some (n - 87)
     else if 65 \<le> n \<and> n \<le> 70 then Some (n - 55)
     else None)"

text \<open>
  \<open>hex.DecodeString\<close>: pairs of digits are decoded from the left; a bad digit is reported before
  an odd length.
\<close>

fun hex_DecodeString :: "string \<Rightarrow> byte list result" where
  "hex_DecodeString [] = Inr []"
| "hex_DecodeString [c] =
    (if hex_val c = None then Inl (Err (ErrNew ''encoding/hex: invalid byte''))
     else Inl (Err (ErrNew ''encoding/hex: odd length hex string'')))"
| "hex_DecodeString (a # b # s) =
    (case (hex_val a, hex_val b) of
       (Some x, Some y) \<Rightarrow>
         rbind (hex_DecodeString s) (\<lambda>bs. Inr (word_of_nat (x * 16 + y) # bs))
     | _ \<Rightarrow> Inl (Err (ErrNew ''encoding/hex: invalid byte'')))"

definition hex_chr :: "nat \<Rightarrow> char" where
  "hex_chr d = ''0123456789abcdef'' ! d"

definition hex_EncodeToString :: "byte list \<Rightarrow> string" where
  "hex_EncodeToString bs = concat (map (\<lambda>b. [hex_chr (unat b div 16), hex_chr (unat b mod 16)]) bs)"

lemma hex_val_chr: "d < 16 \<Longrightarrow> hex_val (hex_chr d) = Some d"
proof -
  have "\<forall>d < 16. hex_val (hex_chr d) = Some d"
    by (simp add: hex_val_def hex_chr_def All_less_Suc numeral_eq_Suc)
  then show "d < 16 \<Longrightarrow> ?thesis" by blast
qed

lemma hex_Decode_Encode: "hex_DecodeString (hex_EncodeToString bs) = Inr bs"
proof (induction bs)
  case (Cons b bs)
  have "unat b < 256" using unsigned_less [of b] by simp
  then have "unat b div 16 < 16" by simp
  moreover have "word_of_nat (unat b div 16 * 16 + unat b mod 16) = b"
    by simp
  ultimately show ?case
    using Cons by (simp add: hex_EncodeToString_def hex_val_chr)
qed (simp add: hex_EncodeToString_def)

lemma length_hex_Encode [simp]: "length (hex_EncodeToString bs) = 2 * length bs"
  by (induction bs) (auto simp: hex_EncodeToString_def)

lemma hex_Decode_length: "hex_DecodeString s = Inr bs \<Longrightarrow> length s = 2 * length bs"
  by (induction s arbitrary: bs rule: hex_DecodeString.induct)
    (auto split: option.splits if_splits)

section \<open>JSON number literals\<close>

text \<open>\<open>isValidNumber\<close> of \<open>encoding/json\<close>.\<close>

definition is_digit :: "char \<Rightarrow> bool" where
  "is_digit c \<longleftrightarrow> digit_val c \<noteq> None"

definition number_exponent :: "string \<Rightarrow> bool" where
  "number_exponent s =
    (if 2 \<le> length s \<and> (hd s = CHR ''e'' \<or> hd s = CHR ''E'') then
       let s = tl s in
       if hd s = CHR ''+'' \<or> hd s = CHR ''-'' then tl s \<noteq> [] \<and> list_all is_digit (tl s)
       else list_all is_digit s
     else s = [])"

definition number_fraction :: "string \<Rightarrow> bool" where
  "number_fraction s =
    (if 2 \<le> length s \<and> hd s = CHR ''.'' \<and> is_digit (hd (tl s)) then
       number_exponent (dropWhile is_digit (tl s))
     else number_exponent s)"

definition isValidNumber :: "string \<Rightarrow> bool" where
  "isValidNumber s =
    (case (if s \<noteq> [] \<and> hd s = CHR ''-'' then tl s else s) of
       [] \<Rightarrow> False
     | c # s \<Rightarrow> if c = CHR ''0'' then number_fraction s
                else is_digit c \<and> number_fraction (dropWhile is_digit s))"

end
