(* ===== verification/Retry.thy ===== *)
theory Retry
  imports GoStrings
begin

text \<open>
  Effects and \<open>V2/internal/retry\<close>.  An operation that talks to the outside world is a state
  transformer on a world \<open>'w\<close> that also returns a result; \<open>iobind\<close> sequences two of them.
  \<open>Simple\<close> and \<open>Backoff\<close> are written on such operations, so that a retried operation sees the
  world its failed attempts left behind.
\<close>

section \<open>Operations on a world\<close>

type_synonym ('w, 'a) io = "'w \<Rightarrow> 'a result \<times> 'w"

definition ioret :: "'a \<Rightarrow> ('w, 'a) io" where
  "ioret x w = (Inr x, w)"

definition iofail :: "fault \<Rightarrow> ('w, 'a) io" where
  "iofail e w = (Inl e, w)"

definition iolift :: "'a result \<Rightarrow> ('w, 'a) io" where
  "iolift r w = (r, w)"

definition iobind :: "('w, 'a) io \<Rightarrow> ('a \<Rightarrow> ('w, 'b) io) \<Rightarrow> ('w, 'b) io" where
  "iobind m f w = (case m w of (Inl e, w') \<Rightarrow> (Inl e, w') | (Inr x, w') \<Rightarrow> f x w')"

definition iowrapf :: "string \<Rightarrow> ('w, 'a) io \<Rightarrow> ('w, 'a) io" where
  "iowrapf msg m w = (case m w of (r, w') \<Rightarrow> (wrapf msg r, w'))"

definition iofatal :: "string \<Rightarrow> ('w, 'a) io \<Rightarrow> ('w, 'a) io" where
  "iofatal msg m w = (case m w of (r, w') \<Rightarrow> (fatal msg r, w'))"

text \<open>\<open>if err != nil { log.Warn(err) }\<close>: the error is logged and the operation goes on.\<close>

definition iologged :: "('w, 'a) io \<Rightarrow> ('w, 'a option) io" where
  "iologged m w =
    (case m w of (Inl (Err e), w') \<Rightarrow> (Inr None, w')
     | (Inl e, w') \<Rightarrow> (Inl e, w') | (Inr x, w') \<Rightarrow> (Inr (Some x), w'))"

fun iomapM :: "('a \<Rightarrow> ('w, 'b) io) \<Rightarrow> 'a list \<Rightarrow> ('w, 'b list) io" where
  "iomapM f [] = ioret []"
| "iomapM f (x # xs) = iobind (f x) (\<lambda>y. iobind (iomapM f xs) (\<lambda>ys. ioret (y # ys)))"

lemma io_simps [simp, go_simps]:
  "ioret x w = (Inr x, w)"
  "iofail e w = (Inl e, w)"
  "iolift r w = (r, w)"
  by (simp_all add: ioret_def iofail_def iolift_def)

lemma iobind_simps [simp, go_simps]:
  "m w = (Inl e, w') \<Longrightarrow> iobind m f w = (Inl e, w')"
  "m w = (Inr x, w') \<Longrightarrow> iobind m f w = f x w'"
  by (simp_all add: iobind_def)

lemma iobind_eq_InrE:
  assumes "iobind m f w = (Inr y, w'')"
  obtains x w' where "m w = (Inr x, w')" "f x w' = (Inr y, w'')"
  using assms by (auto simp: iobind_def split: prod.splits sum.splits)

lemma iobind_ioret [simp]: "iobind (ioret x) f = f x" "iobind m ioret = m"
  by (auto simp: iobind_def fun_eq_iff ioret_def split: prod.splits sum.splits)

lemma iobind_assoc: "iobind (iobind m f) g = iobind m (\<lambda>x. iobind (f x) g)"
  by (auto simp: iobind_def fun_eq_iff split: prod.splits sum.splits)

lemma iowrapf_eq_Inr [simp]: "iowrapf msg m w = (Inr x, w') \<longleftrightarrow> m w = (Inr x, w')"
  by (auto simp: iowrapf_def split: prod.splits)

lemma iofatal_eq_Inr [simp]: "iofatal msg m w = (Inr x, w') \<longleftrightarrow> m w = (Inr x, w')"
  by (auto simp: iofatal_def split: prod.splits)

section \<open>\<open>retry.Simple\<close>\<close>

text \<open>
  \<open>attempts--; attempts > 0\<close> on a 64 bit integer.  The pauses between attempts have no effect on
  the world.
\<close>

lemma retry_dec:
  assumes "0 < i64 (attempts - 1)"
  shows "(if in_i64 (i64 (attempts - 1)) then
            if i64 (attempts - 1) = - (2 ^ 63) then 2 ^ 64 else nat (i64 (attempts - 1))
          else 2 ^ 65) <
         (if in_i64 attempts then if attempts = - (2 ^ 63) then 2 ^ 64 else nat attempts
          else (2 ^ 65 :: nat))"
proof (cases "in_i64 attempts \<and> attempts \<noteq> - (2 ^ 63)")
  case True
  then have "i64 (attempts - 1) = attempts - 1"
    by (intro i64_id) (auto simp: in_i64_def)
  moreover have "in_i64 (attempts - 1)"
    using True by (auto simp: in_i64_def)
  ultimately show ?thesis using assms True by simp
next
  case False
  have "i64 (attempts - 1) < 2 ^ 63"
    using i64_in_range [of "attempts - 1"] unfolding in_i64_def by blast
  then have "nat (i64 (attempts - 1)) < 2 ^ 63" by (simp add: nat_less_iff)
  then show ?thesis using False assms by auto
qed

function Simple :: "int \<Rightarrow> int \<Rightarrow> ('w, 'a) io \<Rightarrow> ('w, 'a) io" where
  "Simple attempts sleep fn w =
    (case fn w of
       (Inl (Err e), w') \<Rightarrow>
         if 0 < i64 (attempts - 1) then Simple (i64 (attempts - 1)) sleep fn w'
         else (Inl (Err e), w')
     | (r, w') \<Rightarrow> (r, w'))"
  by auto
termination
  by (relation "measure (\<lambda>(attempts, _).
      if in_i64 attempts then if attempts = - (2 ^ 63) then 2 ^ 64 else nat attempts else 2 ^ 65)")
    (use retry_dec in \<open>auto simp del: power_numeral\<close>)

declare Simple.simps [simp del]

text \<open>
  The reference: at most \<open>n\<close> further calls, each on the world left by the previous one, stopping
  at the first that does not return an error.
\<close>

primrec try_upto :: "nat \<Rightarrow> ('w, 'a) io \<Rightarrow> ('w, 'a) io" where
  "try_upto 0 fn w = fn w"
| "try_upto (Suc n) fn w =
    (case fn w of (Inl (Err e), w') \<Rightarrow> try_upto n fn w' | (r, w') \<Rightarrow> (r, w'))"

lemma i64_pred: "0 < i64 a \<Longrightarrow> i64 (i64 a - 1) = i64 a - 1"
  using i64_in_range [of a] by (intro i64_id) (auto simp: in_i64_def)

lemma Simple_try_upto: "Simple attempts sleep fn w = try_upto (nat (i64 (attempts - 1))) fn w"
proof (induction attempts sleep fn w rule: Simple.induct)
  case (1 attempts sleep fn w)
  show ?case
  proof (cases "0 < i64 (attempts - 1)")
    case True
    then have n: "nat (i64 (attempts - 1)) = Suc (nat (i64 (i64 (attempts - 1) - 1)))"
      using i64_pred [OF True] by simp
    have "fn w = (Inl (Err e), w') \<Longrightarrow> Simple (i64 (attempts - 1)) sleep fn w' =
        try_upto (nat (i64 (i64 (attempts - 1) - 1))) fn w'" for e w'
      by (rule "1.IH") (use True in simp_all)
    then show ?thesis
      using True
      by (subst Simple.simps, subst n)
        (auto split: prod.splits sum.splits fault.splits)
  next
    case False
    then show ?thesis
      by (subst Simple.simps) (auto split: prod.splits sum.splits fault.splits)
  qed
qed

text \<open>
  An invariant of the retried operation is an invariant of the retry, and a successful retry ends
  with a successful call of the operation on a world the invariant holds of.
\<close>

lemma try_upto_inv:
  assumes "\<And>w r w'. P w \<Longrightarrow> fn w = (r, w') \<Longrightarrow> P w'" "P w" "try_upto n fn w = (r, w')"
  shows "P w' \<and> (\<exists>w0. P w0 \<and> fn w0 = (r, w'))"
  using assms(2,3)
proof (induction n arbitrary: w)
  case (Suc n)
  show ?case
  proof (cases "\<exists>e w1. fn w = (Inl (Err e), w1)")
    case True
    then show ?thesis using Suc assms(1) by fastforce
  next
    case False
    then have "fn w = (r, w')"
      using Suc.prems by (auto split: prod.splits sum.splits fault.splits)
    then show ?thesis using Suc.prems assms(1) by blast
  qed
qed (use assms(1) in auto)

section \<open>\<open>retry.Backoff\<close>\<close>

text \<open>
  \<open>rand.Int63n(n)\<close> panics unless \<open>n\<close> is positive; \<open>jitter k n\<close> is the draw before retry \<open>k\<close>.  The
  durations passed to \<open>time.Sleep\<close>, in nanoseconds, are collected in the first component.
\<close>

fun Backoff_loop ::
  "(nat \<Rightarrow> int \<Rightarrow> int) \<Rightarrow> nat \<Rightarrow> nat \<Rightarrow> int \<Rightarrow> ('w, 'a) io \<Rightarrow> 'w \<Rightarrow> int list \<times> 'a result \<times> 'w" where
  "Backoff_loop jitter k 0 sleep fn w = ([], fn w)"
| "Backoff_loop jitter k (Suc left) sleep fn w =
    (case fn w of
       (Inl (Err e), w') \<Rightarrow>
         if sleep \<le> 0 then ([], Inl (Panic ''invalid argument to Int63n''), w')
         else
           let sleep' = i64 (sleep + go_div (jitter k sleep) 2);
               (ds, r) = Backoff_loop jitter (Suc k) left (i64 (2 * sleep')) fn w'
           in (i64 (sleep' * 10 ^ 9) # ds, r)
     | (r, w') \<Rightarrow> ([], r, w'))"

text \<open>\<open>attempts--; attempts > 0\<close>: the number of further calls after the first.\<close>

definition Backoff ::
  "(nat \<Rightarrow> int \<Rightarrow> int) \<Rightarrow> int \<Rightarrow> int \<Rightarrow> ('w, 'a) io \<Rightarrow> 'w \<Rightarrow> int list \<times> 'a result \<times> 'w" where
  "Backoff jitter attempts sleep fn w = Backoff_loop jitter 0 (nat (i64 (attempts - 1))) sleep fn w"

definition Int63n_ok :: "(nat \<Rightarrow> int \<Rightarrow> int) \<Rightarrow> bool" where
  "Int63n_ok jitter \<longleftrightarrow> (\<forall>k n. 0 < n \<longrightarrow> 0 \<le> jitter k n \<and> jitter k n < n)"

lemma go_div_2_bounds: "0 \<le> j \<Longrightarrow> 0 \<le> go_div j 2 \<and> 2 * go_div j 2 \<le> j"
  by (simp add: go_div_nonneg)

lemma Backoff_step:
  assumes "Int63n_ok jitter" "0 < sleep" "sleep * 3 * 10 ^ 9 < 2 ^ 63"
    "sleep' = i64 (sleep + go_div (jitter k sleep) 2)"
  shows "sleep \<le> sleep'" "2 * sleep' \<le> 3 * sleep" "i64 (2 * sleep') = 2 * sleep'"
    "i64 (sleep' * 10 ^ 9) = sleep' * 10 ^ 9"
proof -
  have j: "0 \<le> jitter k sleep" "jitter k sleep < sleep"
    using assms(1,2) by (auto simp: Int63n_ok_def)
  define g where "g = go_div (jitter k sleep) 2"
  have g: "0 \<le> g" "2 * g \<le> jitter k sleep"
    using go_div_2_bounds [OF j(1)] by (auto simp: g_def)
  have "in_i64 (sleep + g)" using assms(2,3) g j by (simp add: in_i64_def)
  then have s: "sleep' = sleep + g" using assms(4) by (simp add: g_def i64_id)
  show "sleep \<le> sleep'" "2 * sleep' \<le> 3 * sleep" using s g j by simp_all
  show "i64 (2 * sleep') = 2 * sleep'" "i64 (sleep' * 10 ^ 9) = sleep' * 10 ^ 9"
    using s g j assms(2,3) by (intro i64_id; simp add: in_i64_def)+
qed

definition pauses_ok :: "int \<Rightarrow> int list \<Rightarrow> bool" where
  "pauses_ok sleep ds \<longleftrightarrow>
    (\<forall>i < length ds. sleep * 2 ^ i * 10 ^ 9 \<le> ds ! i \<and> 2 * ds ! i \<le> sleep * 3 ^ (i + 1) * 10 ^ 9)"

lemma pauses_ok_Cons:
  assumes "pauses_ok (2 * s') ds" "s \<le> s'" "2 * s' \<le> 3 * s"
  shows "pauses_ok s (s' * 10 ^ 9 # ds)"
  unfolding pauses_ok_def
proof (intro allI impI)
  fix i assume "i < length (s' * 10 ^ 9 # ds)"
  then show "s * 2 ^ i * 10 ^ 9 \<le> (s' * 10 ^ 9 # ds) ! i \<and>
      2 * (s' * 10 ^ 9 # ds) ! i \<le> s * 3 ^ (i + 1) * 10 ^ 9"
  proof (cases i)
    case 0
    then show ?thesis using assms by simp
  next
    case (Suc j)
    define p q :: int where "p = 2 ^ j" and "q = 3 ^ j"
    have "2 * s' * p * 10 ^ 9 \<le> ds ! j" "2 * ds ! j \<le> 2 * s' * (3 * q) * 10 ^ 9"
      using assms(1) \<open>i < _\<close> Suc by (auto simp: pauses_ok_def p_def q_def)
    moreover have "s * p \<le> s' * p" "2 * s' * q \<le> 3 * s * q"
      using assms(2,3) by (intro mult_right_mono; simp add: p_def q_def)+
    moreover have "2 ^ i = 2 * p" "3 ^ (i + 1) = 9 * q"
      using Suc by (simp_all add: p_def q_def)
    ultimately show ?thesis using Suc by (simp add: algebra_simps)
  qed
qed

lemma Backoff_loop_schedule:
  assumes "Int63n_ok jitter" "0 < sleep" "sleep * 3 ^ n * 10 ^ 9 < 2 ^ 63"
  shows "\<exists>ds. Backoff_loop jitter k n sleep fn w = (ds, try_upto n fn w) \<and>
    length ds \<le> n \<and> pauses_ok sleep ds"
  using assms(2,3)
proof (induction n arbitrary: k sleep w)
  case 0
  then show ?case by (simp add: pauses_ok_def)
next
  case (Suc n)
  show ?case
  proof (cases "\<exists>e w'. fn w = (Inl (Err e), w')")
    case True
    then obtain e w' where fn: "fn w = (Inl (Err e), w')" by blast
    define s' where "s' = i64 (sleep + go_div (jitter k sleep) 2)"
    have "sleep * 3 * 10 ^ 9 * 1 \<le> sleep * 3 * 10 ^ 9 * 3 ^ n"
      using Suc.prems(1) by (intro mult_left_mono) auto
    then have "sleep * 3 * 10 ^ 9 < 2 ^ 63"
      using Suc.prems(2) by (simp add: mult_ac)
    note step = Backoff_step [OF assms(1) Suc.prems(1) this s'_def]
    have "2 * s' * (3 ^ n * 10 ^ 9) \<le> 3 * sleep * (3 ^ n * 10 ^ 9)"
      using step(2) by (intro mult_right_mono) auto
    also have "\<dots> = sleep * 3 ^ Suc n * 10 ^ 9"
      by simp
    finally have "2 * s' * 3 ^ n * 10 ^ 9 < 2 ^ 63"
      using Suc.prems(2) by (simp only: mult.assoc)
    moreover have "0 < 2 * s'" using step(1) Suc.prems(1) by simp
    ultimately obtain ds where ds:
      "Backoff_loop jitter (Suc k) n (2 * s') fn w' = (ds, try_upto n fn w')"
      "length ds \<le> n" "pauses_ok (2 * s') ds"
      using Suc.IH [of "2 * s'" "Suc k" w'] by blast
    have "Backoff_loop jitter k (Suc n) sleep fn w = (s' * 10 ^ 9 # ds, try_upto n fn w')"
      using fn ds(1) step(3,4) Suc.prems(1) unfolding Backoff_loop.simps s'_def [symmetric]
      by simp
    moreover have "pauses_ok sleep (s' * 10 ^ 9 # ds)"
      using pauses_ok_Cons [OF ds(3) step(1,2)] .
    ultimately show ?thesis using fn ds(2) by auto
  next
    case False
    then have "Backoff_loop jitter k (Suc n) sleep fn w = ([], fn w)" "try_upto (Suc n) fn w = fn w"
      by (auto split: prod.splits sum.splits fault.splits)
    then show ?thesis by (simp add: pauses_ok_def)
  qed
qed

section \<open>Properties\<close>

text \<open>
  C32: \<open>Simple\<close> is the bounded retry.  It behaves as at most \<open>max 1 attempts\<close> calls of the
  operation, each on the world left by the one before, and returns the first answer that is not an
  error, or the last error.
\<close>

theorem Simple_bounded_retry:
  assumes "1 \<le> attempts" "in_i64 attempts"
  shows "Simple attempts sleep fn = try_upto (nat attempts - 1) fn"
proof
  fix w
  have "i64 (attempts - 1) = attempts - 1"
    using assms by (intro i64_id) (auto simp: in_i64_def)
  then show "Simple attempts sleep fn w = try_upto (nat attempts - 1) fn w"
    using assms(1) by (simp add: Simple_try_upto nat_diff_distrib)
qed

theorem Simple_bounded_retry_witness:
  "Simple 3 3 (\<lambda>n. if n < 2 then (Inl (Err (ErrNew ''busy'')), n + 1) else (Inr n, n)) 0 =
    (Inr 2, 2 :: nat)"
proof -
  have "Simple 3 3 fn 0 = try_upto (nat 3 - 1) fn (0 :: nat)" for fn :: "(nat, nat) io"
    by (subst Simple_bounded_retry) (simp_all add: in_i64_def)
  then show ?thesis by (simp add: numeral_2_eq_2)
qed



text \<open>
  C34: a retry without a pause crashes.  If more than one attempt is configured but the pause is
  zero, as when the \<open>sleep\<close> entry of the configuration is omitted, the first failed call makes
  \<open>Backoff\<close> panic instead of retrying.
\<close>

theorem Backoff_zero_sleep_panics:
  assumes "2 \<le> attempts" "in_i64 attempts" "sleep \<le> 0" "fn w = (Inl (Err e), w')"
  shows "Backoff jitter attempts sleep fn w =
    ([], Inl (Panic ''invalid argument to Int63n''), w')"
proof -
  have "i64 (attempts - 1) = attempts - 1"
    using assms(1,2) by (intro i64_id) (auto simp: in_i64_def)
  moreover obtain n where "nat (attempts - 1) = Suc n"
    using assms(1) by (cases "nat (attempts - 1)") auto
  ultimately show ?thesis using assms(3,4) by (simp add: Backoff_def)
qed

theorem Backoff_zero_sleep_panics_witness:
  "Backoff (\<lambda>k n. 0) 3 0 (\<lambda>n :: nat. (Inl (Err (ErrNew ''down'')), n + 1)) 0 =
    ([], (Inl (Panic ''invalid argument to Int63n'') :: nat result), 1)"
  using Backoff_zero_sleep_panics
    [of 3 0 "\<lambda>n :: nat. (Inl (Err (ErrNew ''down'')), n + 1)" 0 "ErrNew ''down''" 1 "\<lambda>k n. 0"]
  by (simp add: in_i64_def)

end
