(* ===== verification/HttpClient.thy ===== *)
theory HttpClient
  imports Config Retry "HOL-Library.List_Lexorder" "HOL-Library.Char_ord"
begin

text \<open>
  \<open>V2/pkg/http/http.go\<close>: the HTTP and JSON-RPC client.  What lies outside is collected in a record:
  the transport (\<open>HttpClient.Do\<close>), the draws of the random jitter, and the verdicts of \<open>net/url\<close> and
  \<open>http.NewRequest\<close>.  A body is the JSON value it contains; decoding into a Go type is an argument.
\<close>

section \<open>Values on the wire\<close>

datatype json = JNull | JBool bool | JNum string | JStr string | JArr "json list"
  | JObj "(string \<times> json) list"

record url =
  u_origin :: string
  u_path :: string
  u_query :: "(string \<times> string) list"

record http_request =
  rq_method :: string
  rq_url :: url
  rq_body :: "json option"
  rq_auth :: "string \<times> string"

text \<open>\<open>rs_json\<close>: the JSON value of the body or the error of the decoder; \<open>rs_text\<close>: what \<open>ReadAll\<close> yields.\<close>

record http_response =
  StatusCode :: int
  rs_text :: "string result"
  rs_json :: "json result"

record 'w net =
  n_do :: "http_request \<Rightarrow> ('w, http_response) io"
  n_jitter :: "nat \<Rightarrow> int \<Rightarrow> int"
  n_resolve :: "url \<Rightarrow> string \<Rightarrow> url result"
  n_newreq :: "http_request \<Rightarrow> unit result"

section \<open>Requests and responses\<close>

record Client =
  BaseURL :: url
  cl_User :: string
  cl_Password :: string
  cl_Retry :: Retry_cfg
  ApiKey :: string

record RPCRequest =
  rr_Version :: string
  rr_ID :: int
  rr_Method :: string
  rr_Params :: "json list"

record Status =
  st_Code :: int
  st_Message :: string

record RPCResponse =
  rp_ID :: int
  rp_Result :: json
  rp_Error :: "Status option"

definition Status_Error :: "Status \<Rightarrow> string" where
  "Status_Error e = Itoa (st_Code e) @ '': '' @ st_Message e"

definition NewClient :: "(string \<Rightarrow> url) \<Rightarrow> RPC_cfg \<Rightarrow> Client" where
  "NewClient parse r = \<lparr>BaseURL = parse (URL (RPC_CoinRPC r)), cl_User = User (RPC_CoinRPC r),
     cl_Password = Password (RPC_CoinRPC r), cl_Retry = rpc_Retry (RPC_BaseRPC r), ApiKey = []\<rparr>"

definition NewRPCRequest :: "string \<Rightarrow> json list \<Rightarrow> RPCRequest" where
  "NewRPCRequest method params = \<lparr>rr_Version = ''2.0'', rr_ID = 0, rr_Method = method, rr_Params = params\<rparr>"

definition SetApiKey :: "string \<Rightarrow> Client \<Rightarrow> Client" where
  "SetApiKey k c = c\<lparr>ApiKey := k\<rparr>"

text \<open>\<open>json.Marshal\<close> of a request; \<open>params\<close> is omitted when empty.\<close>

definition enc_request :: "RPCRequest \<Rightarrow> json" where
  "enc_request r = JObj ([(''jsonrpc'', JStr (rr_Version r)), (''id'', JNum (Itoa (rr_ID r))),
     (''method'', JStr (rr_Method r))] @
     (if rr_Params r = [] then [] else [(''params'', JArr (rr_Params r))]))"

text \<open>\<open>Decode\<close> into an \<open>RPCResponse\<close>: absent and \<open>null\<close> members leave the zero value.\<close>

abbreviation type_error :: "'a result" where
  "type_error \<equiv> Inl (Err (ErrNew ''json: cannot unmarshal''))"

definition field :: "string \<Rightarrow> (string \<times> json) list \<Rightarrow> json" where
  "field k fs = (case map_of fs k of None \<Rightarrow> JNull | Some v \<Rightarrow> v)"

fun dec_int :: "json \<Rightarrow> int result" where
  "dec_int JNull = Inr 0"
| "dec_int (JNum s) = (case ParseInt s of (i, None) \<Rightarrow> Inr i | _ \<Rightarrow> type_error)"
| "dec_int _ = type_error"

fun dec_string :: "json \<Rightarrow> string result" where
  "dec_string JNull = Inr []"
| "dec_string (JStr s) = Inr s"
| "dec_string _ = type_error"

fun dec_status :: "json \<Rightarrow> Status option result" where
  "dec_status JNull = Inr None"
| "dec_status (JObj fs) =
    rbind (dec_int (field ''code'' fs)) (\<lambda>c.
    rbind (dec_string (field ''message'' fs)) (\<lambda>m.
    Inr (Some \<lparr>st_Code = c, st_Message = m\<rparr>)))"
| "dec_status _ = type_error"

fun dec_response :: "json \<Rightarrow> RPCResponse result" where
  "dec_response JNull = Inr \<lparr>rp_ID = 0, rp_Result = JNull, rp_Error = None\<rparr>"
| "dec_response (JObj fs) =
    rbind (dec_int (field ''id'' fs)) (\<lambda>i.
    rbind (dec_status (field ''error'' fs)) (\<lambda>e.
    Inr \<lparr>rp_ID = i, rp_Result = field ''result'' fs, rp_Error = e\<rparr>))"
| "dec_response _ = type_error"

fun dec_list :: "(json \<Rightarrow> 'a result) \<Rightarrow> json \<Rightarrow> 'a list result" where
  "dec_list dec JNull = Inr []"
| "dec_list dec (JArr js) = rmapM dec js"
| "dec_list dec _ = type_error"

text \<open>A pointer: \<open>null\<close> is \<open>nil\<close>.\<close>

definition dec_ptr :: "(json \<Rightarrow> 'a result) \<Rightarrow> json \<Rightarrow> 'a option result" where
  "dec_ptr dec j = (if j = JNull then Inr None else rbind (dec j) (\<lambda>x. Inr (Some x)))"

section \<open>Calls\<close>

definition makeRequest ::
  "'w net \<Rightarrow> Client \<Rightarrow> string \<Rightarrow> string \<Rightarrow> json option \<Rightarrow> http_request result" where
  "makeRequest net c method path body =
    rbind
      (if path = [] then Inr (BaseURL c)
       else rbind (wrapf ''error parsing url path'' (n_resolve net (BaseURL c) path)) (\<lambda>u.
         Inr (u\<lparr>u_path := u_path (BaseURL c) @ u_path u\<rparr>)))
      (\<lambda>u.
        let q = u_query u @ (if ApiKey c = [] then [] else [(''api_key'', ApiKey c)]);
            u = u\<lparr>u_query := sort_key fst q\<rparr>;
            rq = \<lparr>rq_method = method, rq_url = u, rq_body = body, rq_auth = (cl_User c, cl_Password c)\<rparr>
        in rbind (wrapf ''error creating request'' (n_newreq net rq)) (\<lambda>_. Inr rq))"

text \<open>
  One attempt of each kind of call.  \<open>CallRest\<close> decodes only when it is given somewhere to decode to
  (\<open>dec\<close> is \<open>Some\<close>).
\<close>

definition rest_once ::
  "'w net \<Rightarrow> Client \<Rightarrow> string \<Rightarrow> string \<Rightarrow> json option \<Rightarrow> (json \<Rightarrow> 'a result) option \<Rightarrow> ('w, 'a option) io" where
  "rest_once net c method path body dec =
    iobind (iolift (renew (makeRequest net c method path body))) (\<lambda>rq w.
      case n_do net rq w of (r, w') \<Rightarrow>
        (rbind (renew r) (\<lambda>res.
           if StatusCode res < 200 \<or> 300 < StatusCode res then
             rbind (renew (rs_text res)) (\<lambda>b.
               Inl (Err (ErrNew (Status_Error \<lparr>st_Code = StatusCode res, st_Message = b\<rparr>))))
           else case dec of
             None \<Rightarrow> Inr None
           | Some f \<Rightarrow> wrapf ''failed to decode response body''
               (rbind (rs_json res) (\<lambda>j. rbind (f j) (\<lambda>x. Inr (Some x))))), w'))"

definition rpc_once :: "'w net \<Rightarrow> Client \<Rightarrow> json \<Rightarrow> (json \<Rightarrow> 'a result) \<Rightarrow> ('w, 'a) io" where
  "rpc_once net c body dec =
    iobind (iolift (renew (makeRequest net c ''POST'' [] (Some body)))) (\<lambda>rq w.
      case n_do net rq w of (r, w') \<Rightarrow>
        (rbind (renew r) (\<lambda>res.
         rbind (wrapf ''failed to decode response body''
           (rbind (rs_json res) (\<lambda>j. rbind (dec_response j) (\<lambda>rp.
              rbind (dec (rp_Result rp)) (\<lambda>x. Inr (rp, x)))))) (\<lambda>(rp, x).
         case rp_Error rp of Some e \<Rightarrow> Inl (Err (ErrNew (Status_Error e))) | None \<Rightarrow> Inr x)), w'))"

fun collect_results :: "RPCResponse list \<Rightarrow> json list result" where
  "collect_results [] = Inr []"
| "collect_results (r # rs) =
    (case rp_Error r of
       Some e \<Rightarrow> Inl (Err (ErrNew (Status_Error e)))
     | None \<Rightarrow> rbind (collect_results rs) (\<lambda>js. Inr (rp_Result r # js)))"

definition batch_once :: "'w net \<Rightarrow> Client \<Rightarrow> json \<Rightarrow> (json \<Rightarrow> 'a result) \<Rightarrow> ('w, 'a) io" where
  "batch_once net c body dec =
    iobind (iolift (renew (makeRequest net c ''POST'' [] (Some body)))) (\<lambda>rq w.
      case n_do net rq w of (r, w') \<Rightarrow>
        (rbind (renew r) (\<lambda>res.
         rbind (wrapf ''failed to decode response body''
           (rbind (rs_json res) (dec_list dec_response))) (\<lambda>rs.
         rbind (collect_results rs) (\<lambda>js.
         wrapf ''failed to decode results'' (dec (JArr js))))), w'))"

definition with_backoff :: "'w net \<Rightarrow> Client \<Rightarrow> ('w, 'a) io \<Rightarrow> ('w, 'a) io" where
  "with_backoff net c fn w =
    snd (Backoff (n_jitter net) (Attempts (cl_Retry c)) (Sleep (cl_Retry c)) fn w)"

definition CallRest ::
  "'w net \<Rightarrow> Client \<Rightarrow> string \<Rightarrow> string \<Rightarrow> json option \<Rightarrow> (json \<Rightarrow> 'a result) option \<Rightarrow> ('w, 'a option) io" where
  "CallRest net c method path body dec = with_backoff net c (rest_once net c method path body dec)"

definition CallRPC :: "'w net \<Rightarrow> Client \<Rightarrow> json \<Rightarrow> (json \<Rightarrow> 'a result) \<Rightarrow> ('w, 'a) io" where
  "CallRPC net c body dec = with_backoff net c (rpc_once net c body dec)"

definition CallRPCBatch :: "'w net \<Rightarrow> Client \<Rightarrow> json \<Rightarrow> (json \<Rightarrow> 'a result) \<Rightarrow> ('w, 'a) io" where
  "CallRPCBatch net c body dec = with_backoff net c (batch_once net c body dec)"

end
