(* ===== verification/Utxo_Rpc.thy ===== *)
theory Utxo_Rpc
  imports Utxo_Types HttpClient
begin

text \<open>
  \<open>V2/pkg/blockchain/utxo/utxo.go\<close>: the RPC calls to a node.  The struct tags of \<open>types.go\<close> give the
  decoders.  A list of pointers may contain \<open>nil\<close> (\<open>None\<close>); following one panics.
\<close>

section \<open>Decoding\<close>

definition dec_struct :: "((string \<times> json) list \<Rightarrow> 'a result) \<Rightarrow> json \<Rightarrow> 'a result" where
  "dec_struct f j = (case j of JNull \<Rightarrow> f [] | JObj fs \<Rightarrow> f fs | _ \<Rightarrow> type_error)"

fun dec_number :: "json \<Rightarrow> string result" where
  "dec_number JNull = Inr []"
| "dec_number (JNum s) = Inr s"
| "dec_number (JStr s) = (if isValidNumber s then Inr s else type_error)"
| "dec_number _ = type_error"

fun dec_bool :: "json \<Rightarrow> bool result" where
  "dec_bool JNull = Inr False"
| "dec_bool (JBool b) = Inr b"
| "dec_bool _ = type_error"

definition dec_BlockchainInfo :: "json \<Rightarrow> BlockchainInfo result" where
  "dec_BlockchainInfo = dec_struct (\<lambda>fs.
    rbind (dec_string (field ''chain'' fs)) (\<lambda>chain.
    rbind (dec_int (field ''blocks'' fs)) (\<lambda>blocks.
    rbind (dec_int (field ''headers'' fs)) (\<lambda>headers.
    rbind (dec_string (field ''bestblockhash'' fs)) (\<lambda>best.
    rbind (dec_number (field ''difficulty'' fs)) (\<lambda>difficulty.
    rbind (dec_int (field ''size_on_disk'' fs)) (\<lambda>sz.
    rbind (dec_string (field ''warnings'' fs)) (\<lambda>warnings.
    Inr \<lparr>bi_Chain = chain, bi_Blocks = blocks, bi_Headers = headers, bi_BestBlockHash = best,
      bi_Difficulty = difficulty, bi_SizeOnDisk = sz, bi_Warnings = warnings\<rparr>))))))))"

definition dec_NetworkInfo :: "json \<Rightarrow> NetworkInfo result" where
  "dec_NetworkInfo = dec_struct (\<lambda>fs.
    rbind (dec_number (field ''version'' fs)) (\<lambda>version.
    rbind (dec_string (field ''subversion'' fs)) (\<lambda>sub.
    rbind (dec_number (field ''protocolversion'' fs)) (\<lambda>protocol.
    rbind (dec_int (field ''timeoffset'' fs)) (\<lambda>offset.
    rbind (dec_string (field ''warnings'' fs)) (\<lambda>warnings.
    Inr \<lparr>ni_Version = version, ni_Subversion = sub, ni_ProtocolVersion = protocol,
      ni_Timeoffset = offset, ni_Warnings = warnings\<rparr>))))))"

definition dec_ChainTip :: "json \<Rightarrow> ChainTip result" where
  "dec_ChainTip = dec_struct (\<lambda>fs.
    rbind (dec_int (field ''height'' fs)) (\<lambda>height.
    rbind (dec_string (field ''hash'' fs)) (\<lambda>hash.
    rbind (dec_number (field ''branchlen'' fs)) (\<lambda>branchlen.
    rbind (dec_string (field ''status'' fs)) (\<lambda>status.
    Inr \<lparr>ct_Height = height, ct_Hash = hash, ct_Branchlen = branchlen, ct_Status = status\<rparr>)))))"

definition dec_header :: "(string \<times> json) list \<Rightarrow> BlockHeader result" where
  "dec_header fs =
    rbind (dec_string (field ''hash'' fs)) (\<lambda>hash.
    rbind (dec_int (field ''height'' fs)) (\<lambda>height.
    rbind (dec_int (field ''time'' fs)) (\<lambda>time.
    rbind (dec_int (field ''mediantime'' fs)) (\<lambda>median.
    rbind (dec_int (field ''nonce'' fs)) (\<lambda>nonce.
    rbind (dec_string (field ''previousblockhash'' fs)) (\<lambda>prev.
    rbind (dec_string (field ''nextblockhash'' fs)) (\<lambda>nxt.
    rbind (dec_string (field ''bits'' fs)) (\<lambda>bits.
    rbind (dec_number (field ''difficulty'' fs)) (\<lambda>difficulty.
    rbind (dec_string (field ''chainwork'' fs)) (\<lambda>chainwork.
    rbind (dec_int (field ''version'' fs)) (\<lambda>version.
    rbind (dec_string (field ''versionHex'' fs)) (\<lambda>versionHex.
    rbind (dec_string (field ''merkleroot'' fs)) (\<lambda>merkle.
    rbind (dec_int (field ''size'' fs)) (\<lambda>sz.
    rbind (dec_int (field ''strippedsize'' fs)) (\<lambda>stripped.
    rbind (dec_int (field ''weight'' fs)) (\<lambda>weight.
    rbind (dec_int (field ''nTx'' fs)) (\<lambda>nTx.
    rbind (dec_bool (field ''isOrphan'' fs)) (\<lambda>orphan.
    Inr \<lparr>b_Hash = hash, b_Height = height, b_Time = time, b_MedianTime = median, b_Nonce = nonce,
      b_PrevHash = prev, b_NextHash = nxt, b_Bits = bits, b_Difficulty = difficulty,
      b_Chainwork = chainwork, b_Version = version, b_VersionHex = versionHex, b_MerkleRoot = merkle,
      b_Size = sz, b_StrippedSize = stripped, b_Weight = weight, b_TxCount = nTx,
      b_IsOrphan = orphan\<rparr>))))))))))))))))))"

fun dec_witness :: "json \<Rightarrow> string list option result" where
  "dec_witness JNull = Inr None"
| "dec_witness j = rbind (dec_list dec_string j) (\<lambda>ws. Inr (Some ws))"

definition dec_Vin :: "json \<Rightarrow> Vin result" where
  "dec_Vin = dec_struct (\<lambda>fs.
    rbind (dec_string (field ''txid'' fs)) (\<lambda>txid.
    rbind (dec_int (field ''vout'' fs)) (\<lambda>vout.
    rbind (dec_struct (\<lambda>gs. rbind (dec_string (field ''asm'' gs)) (\<lambda>asm.
       rbind (dec_string (field ''hex'' gs)) (\<lambda>hex. Inr (asm, hex)))) (field ''scriptSig'' fs)) (\<lambda>(asm, hex).
    rbind (dec_witness (field ''txinwitness'' fs)) (\<lambda>witness.
    rbind (dec_int (field ''sequence'' fs)) (\<lambda>sequence.
    rbind (dec_string (field ''coinbase'' fs)) (\<lambda>coinbase.
    Inr \<lparr>vin_TxID = txid, vin_Vout = vout, vin_Asm = asm, vin_Hex = hex, vin_TxInWitness = witness,
      vin_Sequence = sequence, vin_Coinbase = coinbase\<rparr>)))))))"

definition dec_Vout :: "json \<Rightarrow> Vout result" where
  "dec_Vout = dec_struct (\<lambda>fs.
    rbind (dec_number (field ''value'' fs)) (\<lambda>value.
    rbind (dec_int (field ''n'' fs)) (\<lambda>n.
    rbind (dec_struct (\<lambda>gs.
       rbind (dec_string (field ''asm'' gs)) (\<lambda>asm.
       rbind (dec_string (field ''hex'' gs)) (\<lambda>hex.
       rbind (dec_int (field ''reqSigs'' gs)) (\<lambda>reqSigs.
       rbind (dec_string (field ''type'' gs)) (\<lambda>ty.
       rbind (dec_list dec_string (field ''addresses'' gs)) (\<lambda>addrs.
       Inr (asm, hex, reqSigs, ty, addrs))))))) (field ''scriptPubKey'' fs)) (\<lambda>(asm, hex, reqSigs, ty, addrs).
    Inr \<lparr>vout_Value = value, vout_N = n, vout_Asm = asm, vout_Hex = hex, vout_ReqSigs = reqSigs,
      vout_Type = ty, vout_Addresses = addrs\<rparr>))))"

definition dec_Tx :: "json \<Rightarrow> Tx result" where
  "dec_Tx = dec_struct (\<lambda>fs.
    rbind (dec_string (field ''txid'' fs)) (\<lambda>txid.
    rbind (dec_string (field ''hash'' fs)) (\<lambda>hash.
    rbind (dec_int (field ''version'' fs)) (\<lambda>version.
    rbind (dec_int (field ''size'' fs)) (\<lambda>sz.
    rbind (dec_int (field ''vsize'' fs)) (\<lambda>vsize.
    rbind (dec_int (field ''weight'' fs)) (\<lambda>weight.
    rbind (dec_number (field ''locktime'' fs)) (\<lambda>locktime.
    rbind (dec_list dec_Vin (field ''vin'' fs)) (\<lambda>vins.
    rbind (dec_list dec_Vout (field ''vout'' fs)) (\<lambda>vouts.
    rbind (dec_string (field ''hex'' fs)) (\<lambda>hex.
    Inr \<lparr>tx_TxID = txid, tx_Hash = hash, tx_Version = version, tx_Size = sz, tx_VSize = vsize,
      tx_Weight = weight, tx_Locktime = locktime, tx_Vins = vins, tx_Vouts = vouts, tx_Hex = hex\<rparr>)))))))))))"

definition dec_Block :: "json \<Rightarrow> Block result" where
  "dec_Block = dec_struct (\<lambda>fs. rbind (dec_header fs) (\<lambda>h.
     rbind (dec_list dec_Tx (field ''tx'' fs)) (\<lambda>ts. Inr (with_txs h ts))))"

definition dec_BlockNormal :: "json \<Rightarrow> BlockNormal result" where
  "dec_BlockNormal = dec_struct (\<lambda>fs. rbind (dec_header fs) (\<lambda>h.
     rbind (dec_list dec_string (field ''tx'' fs)) (\<lambda>ts.
     Inr (BlockHeader.extend h (BlockNormal.fields ts)))))"

definition deref :: "'a option \<Rightarrow> 'a result" where
  "deref p = (case p of Some x \<Rightarrow> Inr x
     | None \<Rightarrow> Inl (Panic ''invalid memory address or nil pointer dereference''))"

section \<open>Calls\<close>

record Blockchain =
  client :: Client
  bc_coin :: string

definition New_Blockchain :: "(string \<Rightarrow> url) \<Rightarrow> RPC_cfg \<Rightarrow> string \<Rightarrow> Blockchain" where
  "New_Blockchain parse r c = \<lparr>client = NewClient parse r, bc_coin = c\<rparr>"

definition GetBlockchainInfo :: "'w net \<Rightarrow> Blockchain \<Rightarrow> ('w, BlockchainInfo) io" where
  "GetBlockchainInfo net b = iowrapf ''error calling GetBlockchainInfo''
     (CallRPC net (client b) (enc_request (NewRPCRequest ''getblockchaininfo'' [])) dec_BlockchainInfo)"

definition GetNetworkInfo :: "'w net \<Rightarrow> Blockchain \<Rightarrow> ('w, NetworkInfo) io" where
  "GetNetworkInfo net b = iowrapf ''error calling GetNetworkInfo''
     (CallRPC net (client b) (enc_request (NewRPCRequest ''getnetworkinfo'' [])) dec_NetworkInfo)"

definition merge_warnings :: "string \<Rightarrow> string \<Rightarrow> string" where
  "merge_warnings bw nw = (if bw \<noteq> [] then bw @ '' '' else []) @ (if bw \<noteq> nw then nw else [])"

definition GetChainInfo :: "'w net \<Rightarrow> Blockchain \<Rightarrow> ('w, ChainInfo) io" where
  "GetChainInfo net b =
    iobind (iowrapf ''failed to get chain info'' (GetBlockchainInfo net b)) (\<lambda>bi.
    iobind (iowrapf ''failed to get chain info'' (GetNetworkInfo net b)) (\<lambda>ni.
    ioret \<lparr>ci_Chain = bi_Chain bi, ci_Blocks = bi_Blocks bi, ci_Headers = bi_Headers bi,
      ci_BestBlockHash = bi_BestBlockHash bi, ci_Difficulty = bi_Difficulty bi,
      ci_SizeOnDisk = bi_SizeOnDisk bi, ci_Version = ni_Version ni, ci_Subversion = ni_Subversion ni,
      ci_ProtocolVersion = ni_ProtocolVersion ni, ci_Timeoffset = ni_Timeoffset ni,
      ci_Warnings = merge_warnings (bi_Warnings bi) (ni_Warnings ni)\<rparr>))"

definition GetChainTips :: "'w net \<Rightarrow> Blockchain \<Rightarrow> ('w, ChainTip option list) io" where
  "GetChainTips net b = iowrapf ''error calling GetChainTips''
     (CallRPC net (client b) (enc_request (NewRPCRequest ''getchaintips'' [])) (dec_list (dec_ptr dec_ChainTip)))"

definition GetMempool :: "'w net \<Rightarrow> Blockchain \<Rightarrow> ('w, string list) io" where
  "GetMempool net b = iowrapf ''error calling GetMempool''
     (CallRPC net (client b) (enc_request (NewRPCRequest ''getrawmempool'' [])) (dec_list dec_string))"

definition GetBlockHashes :: "'w net \<Rightarrow> Blockchain \<Rightarrow> int list \<Rightarrow> ('w, string list) io" where
  "GetBlockHashes net b heights = iowrapf ''error calling GetBlockHashes''
     (CallRPCBatch net (client b)
       (JArr (map (\<lambda>h. enc_request (NewRPCRequest ''getblockhash'' [JNum (Itoa h)])) heights))
       (dec_list dec_string))"

definition GetBlocksNormal :: "'w net \<Rightarrow> Blockchain \<Rightarrow> string list \<Rightarrow> ('w, BlockNormal option list) io" where
  "GetBlocksNormal net b hashes =
    (let verbosity = (if bc_coin b = ''doge'' then JBool True else JNum ''1'') in
     iowrapf ''error calling GetBlocksNormal''
       (CallRPCBatch net (client b)
         (JArr (map (\<lambda>h. enc_request (NewRPCRequest ''getblock'' [JStr h, verbosity])) hashes))
         (dec_list (dec_ptr dec_BlockNormal))))"

text \<open>An empty list of hashes is a \<open>nil\<close> slice of requests here, which is marshalled to \<open>null\<close>.\<close>

definition GetRawTransactions :: "'w net \<Rightarrow> Blockchain \<Rightarrow> string list \<Rightarrow> ('w, Tx option list) io" where
  "GetRawTransactions net b hashes = iowrapf ''error calling GetRawTransactions''
     (CallRPCBatch net (client b)
       (if hashes = [] then JNull
        else JArr (map (\<lambda>h. enc_request (NewRPCRequest ''getrawtransaction'' [JStr h, JBool True])) hashes))
       (dec_list (dec_ptr dec_Tx)))"

definition doge_block :: "'w net \<Rightarrow> Blockchain \<Rightarrow> BlockNormal option \<Rightarrow> ('w, Block option) io" where
  "doge_block net b p =
    iobind (iolift (deref p)) (\<lambda>blk.
    if b_Height blk = 0 then ioret (Some (with_txs (header_of blk) []))
    else
      iobind (iowrapf ''error calling GetBlocksVerbose'' (GetRawTransactions net b (bn_Txs blk))) (\<lambda>txsP.
      iobind (iolift (rmapM deref txsP)) (\<lambda>ts.
      ioret (Some (with_txs (header_of blk) ts)))))"

definition GetBlocksVerboseDoge :: "'w net \<Rightarrow> Blockchain \<Rightarrow> string list \<Rightarrow> ('w, Block option list) io" where
  "GetBlocksVerboseDoge net b hashes =
    iobind (iowrapf ''error calling GetBlocksVerbose'' (GetBlocksNormal net b hashes)) (\<lambda>blks.
    iomapM (doge_block net b) blks)"

definition GetBlocksVerbose :: "'w net \<Rightarrow> Blockchain \<Rightarrow> string list \<Rightarrow> ('w, Block option list) io" where
  "GetBlocksVerbose net b hashes =
    (if bc_coin b = ''doge'' then GetBlocksVerboseDoge net b hashes
     else iowrapf ''error calling GetBlocksVerbose''
       (CallRPCBatch net (client b)
         (JArr (map (\<lambda>h. enc_request (NewRPCRequest ''getblock'' [JStr h, JNum ''2''])) hashes))
         (dec_list (dec_ptr dec_Block))))"

datatype BlocksVal = Heights "int list" | Hashes "string list" | OtherVal

fun GetBlocks :: "'w net \<Rightarrow> Blockchain \<Rightarrow> BlocksVal \<Rightarrow> ('w, Block option list) io" where
  "GetBlocks net b (Heights hs) =
    iobind (iowrapf ''failed to get block hashes'' (GetBlockHashes net b hs)) (\<lambda>hashes.
    iowrapf ''failed to get verbose blocks'' (GetBlocksVerbose net b hashes))"
| "GetBlocks net b (Hashes hashes) =
    iowrapf ''failed to get verbose blocks'' (GetBlocksVerbose net b hashes)"
| "GetBlocks net b OtherVal = iofail (Err (ErrNew ''Blocks val must be of type []int or []string''))"

definition SendRawTransaction :: "'w net \<Rightarrow> Blockchain \<Rightarrow> string \<Rightarrow> ('w, string) io" where
  "SendRawTransaction net b rawtx = iowrapf ''error sending raw tx''
     (CallRPC net (client b) (enc_request (NewRPCRequest ''sendrawtransaction'' [JStr rawtx])) dec_string)"

section \<open>Batches\<close>

lemma with_backoff_last:
  assumes "with_backoff net c fn w = (Inr x, w')"
  shows "\<exists>w0. fn w0 = (Inr x, w')"
proof -
  have "\<exists>w0. fn w0 = (Inr x, w')" if "snd (Backoff_loop jitter k n sleep fn w) = (Inr x, w')" for jitter k n sleep w
    using that
  proof (induction jitter k n sleep fn w rule: Backoff_loop.induct)
    case (2 jitter k left sleep fn w)
    show ?case
    proof (cases "\<exists>e w1. fn w = (Inl (Err e), w1)")
      case True
      then obtain e w1 where e: "fn w = (Inl (Err e), w1)" by blast
      show ?thesis
      proof (cases "sleep \<le> 0")
        case True
        then show ?thesis using "2.prems" e by simp
      next
        case False
        then show ?thesis
          using "2.IH" [OF e [symmetric] refl refl False refl] "2.prems" e by (simp add: Let_def split: prod.splits)
      qed
    next
      case False
      then have "fn w = (Inr x, w')"
        using "2.prems" by (auto split: prod.splits sum.splits fault.splits)
      then show ?thesis by blast
    qed
  qed auto
  then show ?thesis using assms unfolding with_backoff_def Backoff_def by blast
qed

lemma with_backoff_success: "fn w = (Inr x, w') \<Longrightarrow> with_backoff net c fn w = (Inr x, w')"
  unfolding with_backoff_def Backoff_def by (cases "nat (i64 (Attempts (cl_Retry c) - 1))") simp_all

lemma collect_results_Inr:
  "collect_results rs = Inr js \<longleftrightarrow> js = map rp_Result rs \<and> (\<forall>r \<in> set rs. rp_Error r = None)"
  by (induction rs arbitrary: js) (auto split: option.splits)

text \<open>
  C25: a batch is all or nothing.  When \<open>CallRPCBatch\<close> succeeds, its last request was answered by a
  JSON array of responses none of which carries an error, and the result is decoded from exactly
  their results, in the order of the answer.
\<close>

theorem CallRPCBatch_all_or_nothing:
  assumes "CallRPCBatch net c body dec w = (Inr x, w')"
  shows "\<exists>rq w0 res rs. makeRequest net c ''POST'' [] (Some body) = Inr rq \<and>
    n_do net rq w0 = (Inr res, w') \<and> rbind (rs_json res) (dec_list dec_response) = Inr rs \<and>
    (\<forall>r \<in> set rs. rp_Error r = None) \<and> dec (JArr (map rp_Result rs)) = Inr x"
proof -
  obtain w0 where "batch_once net c body dec w0 = (Inr x, w')"
    using with_backoff_last [OF assms [unfolded CallRPCBatch_def]] by blast
  then obtain rq where rq: "makeRequest net c ''POST'' [] (Some body) = Inr rq"
    and run: "(case n_do net rq w0 of (r, w'') \<Rightarrow>
        (rbind (renew r) (\<lambda>res.
         rbind (wrapf ''failed to decode response body''
           (rbind (rs_json res) (dec_list dec_response))) (\<lambda>rs.
         rbind (collect_results rs) (\<lambda>js.
         wrapf ''failed to decode results'' (dec (JArr js))))), w'')) = (Inr x, w')"
    unfolding batch_once_def by (auto elim!: iobind_eq_InrE)
  obtain r w'' where r: "n_do net rq w0 = (r, w'')" by fastforce
  show ?thesis
    using run rq r by (auto simp: collect_results_Inr)
qed

text \<open>
  A node that answers every request of a batch, in order and without error: \<open>ask\<close> gives the result
  of a request.
\<close>

definition answers :: "'w net \<Rightarrow> Client \<Rightarrow> (RPCRequest \<Rightarrow> json) \<Rightarrow> bool" where
  "answers net c ask \<longleftrightarrow> (\<forall>rq. n_newreq net rq = Inr ()) \<and>
    (\<forall>reqs rq w. rq_body rq = Some (JArr (map enc_request reqs)) \<longrightarrow>
      (\<exists>res js. n_do net rq w = (Inr res, w) \<and> rs_json res = Inr (JArr js) \<and>
         rmapM dec_response js = Inr (map (\<lambda>r. \<lparr>rp_ID = 0, rp_Result = ask r, rp_Error = None\<rparr>) reqs)))"

lemma CallRPCBatch_answers:
  assumes "answers net c ask" "dec (JArr (map ask reqs)) = Inr x"
  shows "CallRPCBatch net c (JArr (map enc_request reqs)) dec w = (Inr x, w)"
proof -
  obtain rq where rq: "makeRequest net c ''POST'' [] (Some (JArr (map enc_request reqs))) = Inr rq"
    "rq_body rq = Some (JArr (map enc_request reqs))"
    using assms(1) by (auto simp: makeRequest_def answers_def Let_def)
  then obtain res js where "n_do net rq w = (Inr res, w)" "rs_json res = Inr (JArr js)"
    "rmapM dec_response js = Inr (map (\<lambda>r. \<lparr>rp_ID = 0, rp_Result = ask r, rp_Error = None\<rparr>) reqs)"
    using assms(1) unfolding answers_def by blast
  moreover have "collect_results (map (\<lambda>r. \<lparr>rp_ID = 0, rp_Result = ask r, rp_Error = None\<rparr>) reqs) =
      Inr (map ask reqs)"
    by (simp add: collect_results_Inr comp_def)
  ultimately have "batch_once net c (JArr (map enc_request reqs)) dec w = (Inr x, w)"
    using rq assms(2) by (simp add: batch_once_def)
  then show ?thesis unfolding CallRPCBatch_def by (rule with_backoff_success)
qed

lemma dec_list_map:
  "(\<And>y. y \<in> set ys \<Longrightarrow> dec (f y) = Inr (g y)) \<Longrightarrow> dec_list dec (JArr (map f ys)) = Inr (map g ys)"
  by (induction ys) simp_all

lemma iomapM_ok:
  "(\<And>x. x \<in> set xs \<Longrightarrow> f x w = (Inr (g x), w)) \<Longrightarrow> iomapM f xs w = (Inr (map g xs), w)"
  by (induction xs) simp_all

lemma batch_map:
  assumes "answers net c ask" "\<And>h. h \<in> set hs \<Longrightarrow> dec (ask (mk h)) = Inr (g h)"
  shows "CallRPCBatch net c (JArr (map (\<lambda>h. enc_request (mk h)) hs)) (dec_list dec) w = (Inr (map g hs), w)"
proof -
  have "map (\<lambda>h. enc_request (mk h)) hs = map enc_request (map mk hs)" by simp
  moreover have "dec_list dec (JArr (map ask (map mk hs))) = Inr (map g hs)"
    using dec_list_map [of hs dec "\<lambda>h. ask (mk h)" g] assms(2) by (simp add: comp_def)
  ultimately show ?thesis using CallRPCBatch_answers [OF assms(1)] by metis
qed

lemma rmapM_deref: "rmapM deref (map Some xs) = Inr xs"
  by (induction xs) (simp_all add: deref_def)


section \<open>A small node\<close>

text \<open>A node with one block of height 1, which contains one transaction.\<close>

fun reply :: "json \<Rightarrow> json" where
  "reply (JObj fs) =
    (case field ''params'' fs of
       JArr (JStr h # v) \<Rightarrow>
         if field ''method'' fs = JStr ''getrawtransaction'' then JObj [(''txid'', JStr h)]
         else JObj [(''hash'', JStr h), (''height'', JNum ''1''),
           (''tx'', JArr [if v = [JNum ''2''] then JObj [(''txid'', JStr ''t'')] else JStr ''t''])]
     | _ \<Rightarrow> JNull)"
| "reply _ = JNull"

definition small_net :: "unit net" where
  "small_net = \<lparr>n_do = (\<lambda>rq w. (Inr \<lparr>StatusCode = 200, rs_text = Inr [],
       rs_json = Inr (case rq_body rq of
         Some (JArr js) \<Rightarrow> JArr (map (\<lambda>j. JObj [(''result'', reply j)]) js) | _ \<Rightarrow> JNull)\<rparr>, w)),
     n_jitter = (\<lambda>k n. 0), n_resolve = (\<lambda>u p. Inr u), n_newreq = (\<lambda>rq. Inr ())\<rparr>"

definition small_bc :: Blockchain where
  "small_bc = \<lparr>client = \<lparr>BaseURL = \<lparr>u_origin = ''node'', u_path = [], u_query = []\<rparr>, cl_User = [],
     cl_Password = [], cl_Retry = \<lparr>Attempts = 1, Sleep = 1\<rparr>, ApiKey = []\<rparr>, bc_coin = ''doge''\<rparr>"

lemma small_net_answers: "answers small_net c (\<lambda>r. reply (enc_request r))"
proof -
  have "rmapM dec_response (map (\<lambda>j. JObj [(''result'', reply j)]) (map enc_request reqs)) =
      Inr (map (\<lambda>r. \<lparr>rp_ID = 0, rp_Result = reply (enc_request r), rp_Error = None\<rparr>) reqs)" for reqs
    by (induction reqs) (simp_all add: field_def)
  then show ?thesis by (simp add: answers_def small_net_def)
qed

definition small_header :: BlockHeader where
  "small_header = \<lparr>b_Hash = ''h'', b_Height = 1, b_Time = 0, b_MedianTime = 0, b_Nonce = 0,
     b_PrevHash = [], b_NextHash = [], b_Bits = [], b_Difficulty = [], b_Chainwork = [],
     b_Version = 0, b_VersionHex = [], b_MerkleRoot = [], b_Size = 0, b_StrippedSize = 0,
     b_Weight = 0, b_TxCount = 0, b_IsOrphan = False\<rparr>"

definition small_tx :: Tx where
  "small_tx = \<lparr>tx_TxID = ''t'', tx_Hash = [], tx_Version = 0, tx_Size = 0, tx_VSize = 0, tx_Weight = 0,
     tx_Locktime = [], tx_Vins = [], tx_Vouts = [], tx_Hex = []\<rparr>"

lemma small_replies:
  "dec_ptr dec_Block (reply (enc_request (NewRPCRequest ''getblock'' [JStr ''h'', JNum ''2'']))) =
     Inr (Some (with_txs small_header [small_tx]))"
  "dec_ptr dec_BlockNormal (reply (enc_request (NewRPCRequest ''getblock'' [JStr ''h'', JBool True]))) =
     Inr (Some (BlockHeader.extend small_header (BlockNormal.fields [''t''])))"
  "dec_ptr dec_Tx (reply (enc_request (NewRPCRequest ''getrawtransaction'' [JStr ''t'', JBool True]))) =
     Inr (Some small_tx)"
proof -
  have "ParseInt ''1'' = (1, None)"
    using ParseInt_digits [of "''1''"] by (simp add: digit_val_def)
  then have i: "dec_int (JNum ''1'') = Inr 1" by simp
  note defs = enc_request_def NewRPCRequest_def field_def dec_ptr_def dec_struct_def
  show "dec_ptr dec_Tx (reply (enc_request (NewRPCRequest ''getrawtransaction'' [JStr ''t'', JBool True]))) =
     Inr (Some small_tx)"
    by (simp add: defs dec_Tx_def small_tx_def)
  show "dec_ptr dec_Block (reply (enc_request (NewRPCRequest ''getblock'' [JStr ''h'', JNum ''2'']))) =
     Inr (Some (with_txs small_header [small_tx]))"
    by (simp add: defs dec_Block_def dec_header_def dec_Tx_def i small_header_def small_tx_def del: dec_int.simps(2))
  show "dec_ptr dec_BlockNormal (reply (enc_request (NewRPCRequest ''getblock'' [JStr ''h'', JBool True]))) =
     Inr (Some (BlockHeader.extend small_header (BlockNormal.fields [''t''])))"
    by (simp add: defs dec_BlockNormal_def dec_header_def i small_header_def del: dec_int.simps(2))
qed


theorem CallRPCBatch_all_or_nothing_witness:
  "\<exists>rq (rs :: RPCResponse list). makeRequest small_net (client small_bc) ''POST'' [] (Some (JArr [])) = Inr rq \<and>
     (\<forall>r \<in> set rs. rp_Error r = None) \<and> dec_list dec_string (JArr (map rp_Result rs)) = Inr []"
proof -
  have "CallRPCBatch small_net (client small_bc) (JArr (map enc_request [])) (dec_list dec_string) () = (Inr [], ())"
    by (rule CallRPCBatch_answers [OF small_net_answers]) simp
  from CallRPCBatch_all_or_nothing [OF this, unfolded list.map] show ?thesis by blast
qed

end
