(* ===== verification/Db.thy ===== *)
theory Db
  imports Utxo_Types Retry
begin

text \<open>
  The tables of the database and the stored procedures that write them
  (\<open>V2/build/ingester-sql-ddl/template/common/txo/deploy\<close>).  A table is a list of rows, a procedure
  is a function on the tables; a raised exception leaves the tables unchanged.  \<open>SELECT ... INTO\<close>
  takes one matching row without saying which: the choice is the argument \<open>pick\<close>.
  \<open>UPDATE ... RETURNING ... INTO\<close> raises an exception when it returns more than one row.
  A column of type \<open>INTEGER\<close> rejects values outside 32 bits.
\<close>

section \<open>Tables\<close>

record block_row =
  blk_id :: int
  block_hash :: string
  height :: int
  mined_time :: int
  median_time :: int
  nonce :: int
  last_block_hash :: string
  next_block_hash :: string
  bits :: string
  difficulty :: string
  chainwork :: string
  version :: int
  version_hex :: string
  merkle_root :: string
  bsize :: int
  stripped_size :: int
  weight :: int
  tx_count :: int
  is_orphaned :: bool

record tx_row =
  t_id :: int
  t_index :: "int option"
  t_block_id :: "int option"
  t_txid :: string
  t_hash :: string
  t_version :: int
  t_size :: int
  t_v_size :: int
  t_weight :: int
  t_locktime :: int
  t_raw :: string

record input_row =
  i_id :: int
  i_transaction_id :: int
  i_vin :: int
  i_spent_txid :: string
  i_spent_vout :: int
  i_asm :: string
  i_hex :: string
  i_sequence :: int
  i_witness :: "string option"
  i_coinbase :: string

record output_row =
  o_id :: int
  o_transaction_id :: int
  o_vout :: int
  o_amount :: int
  o_asm :: string
  o_hex :: string
  o_req_sigs :: int
  o_type :: string
  o_address :: string
  o_addresses :: "string list option"

text \<open>The four tables with the next value of their \<open>BIGSERIAL\<close> columns, and the metadata.\<close>

record db =
  blocks :: "block_row list"
  txs :: "tx_row list"
  inputs :: "input_row list"
  outputs :: "output_row list"
  metadata :: "string \<rightharpoonup> string"
  block_seq :: int
  tx_seq :: int
  input_seq :: int
  output_seq :: int

definition empty_db :: db where
  "empty_db = \<lparr>blocks = [], txs = [], inputs = [], outputs = [],
     metadata = [''orphanCount'' \<mapsto> ''0'', ''validatedBlock'' \<mapsto> ''0''],
     block_seq = 1, tx_seq = 1, input_seq = 1, output_seq = 1\<rparr>"

definition in_i32 :: "int \<Rightarrow> bool" where
  "in_i32 x \<longleftrightarrow> - (2 ^ 31) \<le> x \<and> x < 2 ^ 31"

abbreviation sql_error :: "string \<Rightarrow> 'a result" where
  "sql_error msg \<equiv> Inl (Err (ErrNew msg))"

text \<open>\<open>UPDATE t SET ... WHERE ...\<close>.\<close>

definition update_where :: "('r \<Rightarrow> bool) \<Rightarrow> ('r \<Rightarrow> 'r) \<Rightarrow> 'r list \<Rightarrow> 'r list" where
  "update_where P f rs = map (\<lambda>r. if P r then f r else r) rs"

text \<open>\<open>ORDER BY key DESC LIMIT 1\<close> on the key itself.\<close>

fun sql_max :: "int list \<Rightarrow> int option" where
  "sql_max [] = None"
| "sql_max (x # xs) = (case sql_max xs of None \<Rightarrow> Some x | Some y \<Rightarrow> Some (max x y))"

definition last_height :: "block_row list \<Rightarrow> int option" where
  "last_height bs = sql_max (map height (filter (\<lambda>r. \<not> is_orphaned r) bs))"

section \<open>\<open>block_insert\<close>\<close>

text \<open>\<open>at hash h\<close>: the rows with this hash and height.\<close>

abbreviation at :: "string \<Rightarrow> int \<Rightarrow> block_row \<Rightarrow> bool" where
  "at hsh h r \<equiv> block_hash r = hsh \<and> height r = h"

definition select_into :: "(block_row list \<Rightarrow> block_row) \<Rightarrow> (block_row \<Rightarrow> bool) \<Rightarrow> block_row list
    \<Rightarrow> block_row option" where
  "select_into pick P bs = (let rs = filter P bs in if rs = [] then None else Some (pick rs))"

text \<open>Lines 53 to 69: the active block below learns its successor.\<close>

definition link_prev ::
  "(block_row list \<Rightarrow> block_row) \<Rightarrow> string \<Rightarrow> int \<Rightarrow> block_row list \<Rightarrow> block_row list" where
  "link_prev pick hsh h bs =
    (if h > 0 then
       case select_into pick (\<lambda>r. \<not> is_orphaned r \<and> height r = h - 1) bs of
         None \<Rightarrow> bs
       | Some p \<Rightarrow>
           update_where (\<lambda>r. at (block_hash p) (h - 1) r \<and> next_block_hash r \<noteq> hsh \<and> \<not> is_orphaned r)
             (\<lambda>r. r\<lparr>next_block_hash := hsh\<rparr>) bs
     else bs)"

text \<open>Lines 72 to 82.\<close>

definition revive :: "string \<Rightarrow> string \<Rightarrow> int \<Rightarrow> block_row list \<Rightarrow> block_row list" where
  "revive nxt hsh h bs =
    update_where (at hsh h) (\<lambda>r. r\<lparr>next_block_hash := nxt, is_orphaned := False\<rparr>) bs"

definition orphan_others :: "string \<Rightarrow> int \<Rightarrow> block_row list \<Rightarrow> block_row list" where
  "orphan_others hsh h bs =
    update_where (\<lambda>r. block_hash r \<noteq> hsh \<and> height r = h) (\<lambda>r. r\<lparr>is_orphaned := True\<rparr>) bs"

text \<open>
  Lines 144 to 178: the walk up the orphaned ancestors.  It ends on the active chain
  (\<open>Reached\<close>), at a missing ancestor (\<open>Missing\<close>, with the hash to start the clean-up from and the
  height below it), or with an exception.  Each round moves one height down past an existing row.
\<close>

datatype walk = Reached | Missing "string option" int | TooManyRows

definition orphan_siblings :: "string \<Rightarrow> int \<Rightarrow> block_row list \<Rightarrow> block_row list" where
  "orphan_siblings hsh h bs =
    update_where (\<lambda>r. block_hash r \<noteq> hsh \<and> height r = h)
      (\<lambda>r. r\<lparr>next_block_hash := [], is_orphaned := True\<rparr>) bs"

definition set_next :: "string \<Rightarrow> string \<Rightarrow> int \<Rightarrow> block_row list \<Rightarrow> block_row list" where
  "set_next nxt hsh h bs = update_where (at hsh h) (\<lambda>r. r\<lparr>next_block_hash := nxt\<rparr>) bs"

lemma map_height_update [simp]:
  "map height (link_prev pick hsh h bs) = map height bs"
  "map height (revive nxt hsh h bs) = map height bs"
  "map height (orphan_others hsh h bs) = map height bs"
  "map height (orphan_siblings hsh h bs) = map height bs"
  "map height (set_next nxt hsh h bs) = map height bs"
  by (auto simp: link_prev_def revive_def orphan_others_def orphan_siblings_def set_next_def
      update_where_def split: option.splits)

function walk_ancestors ::
  "string \<Rightarrow> string \<Rightarrow> int \<Rightarrow> bool \<Rightarrow> block_row list \<Rightarrow> block_row list \<times> walk" where
  "walk_ancestors nxt cur h orphaned bs =
    (if \<not> orphaned then (bs, Reached)
     else
       let bs = revive nxt cur h (orphan_siblings cur h bs) in
       case filter (at cur h) bs of
         [] \<Rightarrow> (bs, Missing None (h - 1))
       | [r] \<Rightarrow>
           let prev = last_block_hash r;
               bs = set_next cur prev (h - 1) bs
           in (case filter (at prev (h - 1)) bs of
                 [] \<Rightarrow> (bs, Missing (Some cur) (h - 1))
               | [p] \<Rightarrow> walk_ancestors cur prev (h - 1) (is_orphaned p) bs
               | _ \<Rightarrow> (bs, TooManyRows))
       | _ \<Rightarrow> (bs, TooManyRows))"
  by pat_completeness auto

text \<open>The rows up to a height are counted; every round drops at least the row it has just revived.\<close>

lemma filter_height_count:
  "length (filter (\<lambda>r. height r \<le> k) bs) = length (filter (\<lambda>x. x \<le> k) (map height bs))"
  by (induction bs) auto

lemma height_count_less:
  assumes "map height bs' = map height bs" "r \<in> set bs'" "height r = h"
  shows "length (filter (\<lambda>r. height r \<le> h - 1) bs') < length (filter (\<lambda>r. height r \<le> h) bs)"
proof -
  have "length (filter (\<lambda>x. x \<le> h - 1) hs) < length (filter (\<lambda>x. x \<le> h) hs)"
    if "h \<in> set hs" for hs :: "int list"
    using that
  proof (induction hs)
    case (Cons x hs)
    have "length (filter (\<lambda>x. x \<le> h - 1) hs) \<le> length (filter (\<lambda>x. x \<le> h) hs)"
      by (induction hs) auto
    then show ?case using Cons by auto
  qed simp
  moreover have "h \<in> set (map height bs)"
    using assms by (metis image_eqI list.set_map)
  ultimately show ?thesis
    unfolding filter_height_count assms(1) by blast
qed

termination walk_ancestors
proof (relation "measure (\<lambda>(nxt, cur, h, orphaned, bs). length (filter (\<lambda>r. height r \<le> h) bs))",
    goal_cases)
  case 1
  then show ?case by simp
next
  case (2 nxt cur h orphaned bs bs1 r rs prev bs2 p ps)
  then have "r \<in> set (filter (at cur h) bs1)" by simp
  then have "r \<in> set bs1 \<and> height r = h" by simp
  moreover have "map height bs2 = map height bs1" "map height bs1 = map height bs"
    using 2 by simp_all
  moreover from this have "\<exists>r' \<in> set bs2. height r' = h"
    using calculation(1) by (metis (no_types, lifting) image_iff list.set_map)
  ultimately show ?case
    using height_count_less [of bs2 bs] by auto
qed

declare walk_ancestors.simps [simp del]

text \<open>
  Lines 188 to 196: the clean-up orphans a block and then, again and again, one block that names it
  as its predecessor.  Nothing in the tables excludes a cycle, so the loop is partial.
\<close>

partial_function (option) orphan_descendants ::
  "(block_row list \<Rightarrow> block_row) \<Rightarrow> string option \<Rightarrow> block_row list \<Rightarrow> block_row list option" where
  "orphan_descendants pick nxt bs =
    (case nxt of
       None \<Rightarrow> Some bs
     | Some hsh \<Rightarrow>
         let bs = update_where (\<lambda>r. block_hash r = hsh) (\<lambda>r. r\<lparr>is_orphaned := True\<rparr>) bs in
         orphan_descendants pick
           (map_option block_hash (select_into pick (\<lambda>r. last_block_hash r = hsh) bs)) bs)"

declare orphan_descendants.simps [code]

text \<open>Lines 128 to 198.\<close>

definition orphan_height :: "int \<Rightarrow> block_row list \<Rightarrow> block_row list" where
  "orphan_height h bs = update_where (\<lambda>r. height r = h) (\<lambda>r. r\<lparr>is_orphaned := True\<rparr>) bs"

definition validate_ancestors ::
  "(block_row list \<Rightarrow> block_row) \<Rightarrow> string \<Rightarrow> int \<Rightarrow> string \<Rightarrow> block_row list
    \<Rightarrow> (block_row list result) option" where
  "validate_ancestors pick hsh h prev bs =
    (case (case select_into pick (\<lambda>r. block_hash r = prev) bs of
             None \<Rightarrow> (bs, Missing (Some hsh) (h - 1))
           | Some p \<Rightarrow> walk_ancestors hsh (block_hash p) (height p) (is_orphaned p) bs) of
       (bs, Reached) \<Rightarrow> Some (Inr bs)
     | (bs, TooManyRows) \<Rightarrow> Some (sql_error ''query returned more than one row'')
     | (bs, Missing nxt ph) \<Rightarrow>
         map_option Inr (orphan_descendants pick nxt (orphan_height ph bs)))"

text \<open>The row inserted for a block (lines 89 to 125).\<close>

definition new_block_row :: "int \<Rightarrow> BlockHeader \<Rightarrow> int \<Rightarrow> int \<Rightarrow> block_row" where
  "new_block_row i b mined median =
    \<lparr>blk_id = i, block_hash = b_Hash b, height = b_Height b, mined_time = mined,
     median_time = median, nonce = b_Nonce b, last_block_hash = b_PrevHash b,
     next_block_hash = b_NextHash b, bits = b_Bits b, difficulty = b_Difficulty b,
     chainwork = b_Chainwork b, version = b_Version b, version_hex = b_VersionHex b,
     merkle_root = b_MerkleRoot b, bsize = b_Size b, stripped_size = b_StrippedSize b,
     weight = b_Weight b, tx_count = b_TxCount b, is_orphaned = False\<rparr>"

definition header_i32 :: "BlockHeader \<Rightarrow> bool" where
  "header_i32 b \<longleftrightarrow> in_i32 (b_Version b) \<and> in_i32 (b_Size b) \<and> in_i32 (b_StrippedSize b) \<and>
     in_i32 (b_Weight b) \<and> in_i32 (b_TxCount b)"

text \<open>Line 48; a comparison with \<open>NULL\<close> does not raise.\<close>

definition too_low :: "int option \<Rightarrow> int \<Rightarrow> bool" where
  "too_low lh h = (case lh of None \<Rightarrow> False | Some l \<Rightarrow> h < l)"

text \<open>Lines 88 to 200: \<open>last\<close> is the height read at the start.\<close>

definition insert_new ::
  "(block_row list \<Rightarrow> block_row) \<Rightarrow> BlockHeader \<Rightarrow> int \<Rightarrow> int \<Rightarrow> int option \<Rightarrow> block_row list \<Rightarrow> db
    \<Rightarrow> (int result \<times> db) option" where
  "insert_new pick b mined median lh bs d =
    (let i = block_seq d;
         bs = bs @ [new_block_row i b mined median];
         d' = d\<lparr>blocks := bs, block_seq := i + 1\<rparr>
     in case lh of
          None \<Rightarrow> Some (Inr i, d')
        | Some _ \<Rightarrow>
            (case validate_ancestors pick (b_Hash b) (b_Height b) (b_PrevHash b) bs of
               None \<Rightarrow> None
             | Some (Inl e) \<Rightarrow> Some (Inl e, d)
             | Some (Inr bs) \<Rightarrow> Some (Inr i, d'\<lparr>blocks := bs\<rparr>)))"

definition block_insert ::
  "(block_row list \<Rightarrow> block_row) \<Rightarrow> BlockHeader \<Rightarrow> int \<Rightarrow> int \<Rightarrow> bool \<Rightarrow> db
    \<Rightarrow> (int result \<times> db) option" where
  "block_insert pick b mined median recover d =
    (if \<not> header_i32 b then Some (sql_error ''integer out of range'', d)
     else if too_low (last_height (blocks d)) (b_Height b) \<and> \<not> recover then
       Some (sql_error ''Received block is less than current last block height'', d)
     else
       let bs = revive (b_NextHash b) (b_Hash b) (b_Height b)
                  (link_prev pick (b_Hash b) (b_Height b) (blocks d));
           bs' = orphan_others (b_Hash b) (b_Height b) bs
       in case filter (at (b_Hash b) (b_Height b)) bs of
            [] \<Rightarrow> insert_new pick b mined median (last_height (blocks d)) bs' d
          | [r] \<Rightarrow> Some (Inr (blk_id r), d\<lparr>blocks := bs'\<rparr>)
          | _ # _ # _ \<Rightarrow> Some (sql_error ''query returned more than one row'', d))"

section \<open>\<open>transaction_insert\<close>, \<open>input_insert\<close>, \<open>output_insert\<close>\<close>

text \<open>
  The document passed to \<open>transaction_insert\<close>: the transaction with its inputs and outputs.  A
  duplicate \<open>(transaction_id, vin)\<close> or \<open>(transaction_id, vout)\<close> is skipped with a notice.  The
  witnesses are stored as the text of the JSON array.
\<close>

record tx_def =
  td_txid :: string
  td_hash :: string
  td_version :: int
  td_size :: int
  td_vsize :: int
  td_weight :: int
  td_locktime :: string
  td_inputs :: "Input list"
  td_outputs :: "Output list"

definition json_quote :: "string \<Rightarrow> string" where
  "json_quote s = CHR 0x22 # s @ [CHR 0x22]"

definition json_string_array :: "string list \<Rightarrow> string" where
  "json_string_array ws = ''['' @ Join (map json_quote ws) '', '' @ '']''"

definition new_input_row :: "int \<Rightarrow> int \<Rightarrow> Input \<Rightarrow> input_row" where
  "new_input_row i tid v =
    \<lparr>i_id = i, i_transaction_id = tid, i_vin = in_Vin v, i_spent_txid = in_SpentTx v,
     i_spent_vout = in_SpentVout v, i_asm = in_Asm v, i_hex = in_Hex v,
     i_sequence = in_Sequence v, i_witness = map_option json_string_array (in_TxInWitness v),
     i_coinbase = in_Coinbase v\<rparr>"

fun input_insert :: "int \<Rightarrow> Input list \<Rightarrow> db \<Rightarrow> unit result \<times> db" where
  "input_insert tid [] d = (Inr (), d)"
| "input_insert tid (v # vs) d =
    (if \<not> in_i32 (in_Vin v) \<or> \<not> in_i32 (in_SpentVout v) then (sql_error ''integer out of range'', d)
     else if \<exists>r \<in> set (inputs d). i_transaction_id r = tid \<and> i_vin r = in_Vin v then
       input_insert tid vs d
     else
       input_insert tid vs (d\<lparr>inputs := inputs d @ [new_input_row (input_seq d) tid v],
         input_seq := input_seq d + 1\<rparr>))"

text \<open>\<open>json_array_cast\<close>: \<open>array_agg\<close> over no rows is \<open>NULL\<close>, and so is anything but an array.\<close>

definition json_array_cast :: "string list \<Rightarrow> string list option" where
  "json_array_cast xs = (if xs = [] then None else Some xs)"

definition new_output_row :: "int \<Rightarrow> int \<Rightarrow> Output \<Rightarrow> output_row" where
  "new_output_row i tid v =
    \<lparr>o_id = i, o_transaction_id = tid, o_vout = out_Vout v, o_amount = out_SatAmount v,
     o_asm = out_Asm v, o_hex = out_Hex v, o_req_sigs = out_ReqSigs v, o_type = out_Type v,
     o_address = out_Address v, o_addresses = json_array_cast (out_Addresses v)\<rparr>"

fun output_insert :: "int \<Rightarrow> Output list \<Rightarrow> db \<Rightarrow> unit result \<times> db" where
  "output_insert tid [] d = (Inr (), d)"
| "output_insert tid (v # vs) d =
    (if \<not> in_i32 (out_Vout v) \<or> \<not> in_i32 (out_ReqSigs v) then (sql_error ''integer out of range'', d)
     else if \<exists>r \<in> set (outputs d). o_transaction_id r = tid \<and> o_vout r = out_Vout v then
       output_insert tid vs d
     else
       output_insert tid vs (d\<lparr>outputs := outputs d @ [new_output_row (output_seq d) tid v],
         output_seq := output_seq d + 1\<rparr>))"

definition opt_of :: "int \<Rightarrow> int option" where
  "opt_of x = (if x = -1 then None else Some x)"

definition block_id_ok :: "db \<Rightarrow> int option \<Rightarrow> bool" where
  "block_id_ok d bid = (case bid of None \<Rightarrow> True | Some i \<Rightarrow> in_i32 i \<and> i \<in> blk_id ` set (blocks d))"

definition new_tx_row :: "int \<Rightarrow> int option \<Rightarrow> int option \<Rightarrow> tx_def \<Rightarrow> string \<Rightarrow> int \<Rightarrow> tx_row" where
  "new_tx_row i idx bid t raw lt =
    \<lparr>t_id = i, t_index = idx, t_block_id = bid, t_txid = td_txid t, t_hash = td_hash t,
     t_version = td_version t, t_size = td_size t, t_v_size = td_vsize t,
     t_weight = td_weight t, t_locktime = lt, t_raw = raw\<rparr>"

definition tx_i32 :: "int option \<Rightarrow> tx_def \<Rightarrow> bool" where
  "tx_i32 idx t \<longleftrightarrow> (case idx of None \<Rightarrow> True | Some i \<Rightarrow> in_i32 i) \<and> in_i32 (td_version t) \<and>
     in_i32 (td_size t) \<and> in_i32 (td_vsize t) \<and> in_i32 (td_weight t)"

definition transaction_insert :: "int \<Rightarrow> tx_def \<Rightarrow> string \<Rightarrow> int \<Rightarrow> db \<Rightarrow> unit result \<times> db" where
  "transaction_insert block_id t raw idx d =
    (let bid = opt_of block_id; ix = opt_of idx in
     case filter (\<lambda>r. t_txid r = td_txid t) (txs d) of
       [] \<Rightarrow>
         (case ParseInt (td_locktime t) of
            (_, Some e) \<Rightarrow> (sql_error ''invalid input syntax for type bigint'', d)
          | (lt, None) \<Rightarrow>
              if \<not> tx_i32 ix t then (sql_error ''integer out of range'', d)
              else if td_hash t \<in> t_hash ` set (txs d) then
                (sql_error ''duplicate key value violates unique constraint'', d)
              else if \<not> block_id_ok d bid then
                (sql_error ''insert or update violates foreign key constraint'', d)
              else
                let i = tx_seq d;
                    d1 = d\<lparr>txs := txs d @ [new_tx_row i ix bid t raw lt], tx_seq := i + 1\<rparr>
                in (case input_insert i (td_inputs t) d1 of
                      (Inl e, _) \<Rightarrow> (Inl e, d)
                    | (Inr _, d2) \<Rightarrow>
                        (case output_insert i (td_outputs t) d2 of
                           (Inl e, _) \<Rightarrow> (Inl e, d)
                         | (Inr _, d3) \<Rightarrow> (Inr (), d3))))
     | r # _ \<Rightarrow>
         if bid = None then (Inr (), d)
         else if \<not> block_id_ok d bid then
           (sql_error ''insert or update violates foreign key constraint'', d)
         else if (case ix of None \<Rightarrow> False | Some i \<Rightarrow> \<not> in_i32 i) then
           (sql_error ''integer out of range'', d)
         else
           (Inr (), d\<lparr>txs := update_where (\<lambda>s. t_id s = t_id r)
              (\<lambda>s. s\<lparr>t_block_id := bid, t_index := ix\<rparr>) (txs d)\<rparr>))"

section \<open>\<open>delete_orphans\<close> and \<open>delete_invalid_txs\<close>\<close>

text \<open>The transactions in orphaned blocks.\<close>

definition in_orphan :: "db \<Rightarrow> tx_row \<Rightarrow> bool" where
  "in_orphan d t \<longleftrightarrow> (\<exists>b \<in> set (blocks d). t_block_id t = Some (blk_id b) \<and> is_orphaned b)"

definition orphan_ids :: "db \<Rightarrow> int list" where
  "orphan_ids d = map t_id (filter (in_orphan d) (txs d))"

definition delete_orphans :: "db \<Rightarrow> unit result \<times> db" where
  "delete_orphans d =
    (let ids = orphan_ids d;
         d = d\<lparr>inputs := filter (\<lambda>i. i_transaction_id i \<notin> set ids) (inputs d)\<rparr>;
         d = d\<lparr>outputs := filter (\<lambda>o'. o_transaction_id o' \<notin> set ids) (outputs d)\<rparr>
     in (Inr (), d\<lparr>txs := filter (\<lambda>t. t_id t \<notin> set ids) (txs d)\<rparr>))"

text \<open>The inputs and outputs of a deleted transaction go with it (\<open>ON DELETE CASCADE\<close>).\<close>

definition delete_invalid_txs :: "int list \<Rightarrow> db \<Rightarrow> unit result \<times> db" where
  "delete_invalid_txs ids d =
    (let gone = map t_id (filter (\<lambda>t. t_id t \<in> set ids \<and> t_block_id t = None) (txs d)) in
     (Inr (), d\<lparr>txs := filter (\<lambda>t. \<not> (t_id t \<in> set ids \<and> t_block_id t = None)) (txs d),
        inputs := filter (\<lambda>i. i_transaction_id i \<notin> set gone) (inputs d),
        outputs := filter (\<lambda>o'. o_transaction_id o' \<notin> set gone) (outputs d)\<rparr>))"

end
