(* ===== verification/Db_Blocks.thy ===== *)
theory Db_Blocks
  imports Db
begin

text \<open>
  What \<open>block_insert\<close> keeps of the block table: rows stay distinct by hash and height, and at most
  one block per height is active (not orphaned).  These hold for every input, every choice of
  \<open>SELECT ... INTO\<close> and both settings of \<open>in_recover\<close>.
\<close>

abbreviation active :: "block_row \<Rightarrow> bool" where
  "active r \<equiv> \<not> is_orphaned r"

abbreviation key :: "block_row \<Rightarrow> string \<times> int" where
  "key r \<equiv> (block_hash r, height r)"

definition uniq_keys :: "block_row list \<Rightarrow> bool" where
  "uniq_keys bs \<longleftrightarrow> distinct (map key bs)"

definition one_active :: "block_row list \<Rightarrow> bool" where
  "one_active bs \<longleftrightarrow> (\<forall>r \<in> set bs. \<forall>s \<in> set bs.
     active r \<and> active s \<and> height r = height s \<longrightarrow> block_hash r = block_hash s)"

text \<open>The columns no update touches.\<close>

abbreviation frozen :: "block_row \<Rightarrow> int \<times> string \<times> int \<times> string" where
  "frozen r \<equiv> (blk_id r, block_hash r, height r, last_block_hash r)"

named_theorems block_updates "definitions of the updates of the block table"

lemmas [block_updates] = update_where_def revive_def orphan_others_def orphan_siblings_def
  set_next_def orphan_height_def

lemma frozen_updates [simp]:
  "map frozen (link_prev pick hsh h bs) = map frozen bs"
  "map frozen (revive nxt hsh h bs) = map frozen bs"
  "map frozen (orphan_others hsh h bs) = map frozen bs"
  "map frozen (orphan_siblings hsh h bs) = map frozen bs"
  "map frozen (set_next nxt hsh h bs) = map frozen bs"
  "map frozen (orphan_height h bs) = map frozen bs"
  "map frozen (update_where P (\<lambda>r. r\<lparr>is_orphaned := b\<rparr>) bs) = map frozen bs"
  by (auto simp: link_prev_def block_updates split: option.splits)

lemma key_of_frozen:
  assumes "map frozen bs' = map frozen bs"
  shows "map key bs' = map key bs"
  using arg_cong [OF assms, of "map (\<lambda>(i, hsh, h, l). (hsh, h))"] by (simp add: comp_def)

lemma uniq_keys_frozen: "map frozen bs' = map frozen bs \<Longrightarrow> uniq_keys bs' \<longleftrightarrow> uniq_keys bs"
  unfolding uniq_keys_def by (drule key_of_frozen) (simp only:)

lemma frozen_in:
  assumes "map frozen bs' = map frozen bs" "r' \<in> set bs'"
  obtains r where "r \<in> set bs" "frozen r = frozen r'"
proof -
  have "frozen r' \<in> set (map frozen bs)"
    using assms by (simp only: assms(1) [symmetric]) simp
  then show thesis using that by auto
qed

lemma uniq_filter_at:
  assumes "uniq_keys bs"
  shows "filter (at hsh h) bs = [] \<or> (\<exists>r. filter (at hsh h) bs = [r])"
proof (cases "filter (at hsh h) bs")
  case (Cons r rs)
  have "distinct (map key (filter (at hsh h) bs))"
    using assms by (simp add: uniq_keys_def distinct_map_filter)
  moreover have "set (filter (at hsh h) bs) \<subseteq> {r. key r = (hsh, h)}"
    by auto
  ultimately have "rs = []"
    using Cons by (cases rs) auto
  then show ?thesis using Cons by simp
qed simp

section \<open>At most one active block per height\<close>

lemma one_activeD:
  "one_active bs \<Longrightarrow> r \<in> set bs \<Longrightarrow> s \<in> set bs \<Longrightarrow> active r \<Longrightarrow> active s \<Longrightarrow>
    height r = height s \<Longrightarrow> block_hash r = block_hash s"
  unfolding one_active_def by blast

text \<open>An update that revives nothing keeps the property.\<close>

lemma one_active_mono:
  assumes "one_active bs"
    "\<And>r'. r' \<in> set bs' \<Longrightarrow> active r' \<Longrightarrow> \<exists>r \<in> set bs. active r \<and> key r = key r'"
  shows "one_active bs'"
  unfolding one_active_def
proof (intro ballI impI)
  fix r' s' assume *: "r' \<in> set bs'" "s' \<in> set bs'"
    "active r' \<and> active s' \<and> height r' = height s'"
  obtain r s where "r \<in> set bs" "active r" "key r = key r'" "s \<in> set bs" "active s" "key s = key s'"
    using assms(2) * by meson
  then show "block_hash r' = block_hash s'"
    using one_activeD [OF assms(1), of r s] * by simp
qed

text \<open>An update that leaves one hash at a height active, and revives nothing elsewhere, keeps it.\<close>

lemma one_active_step:
  assumes "one_active bs"
    "\<And>r'. r' \<in> set bs' \<Longrightarrow> active r' \<Longrightarrow>
      at hsh h r' \<or> (height r' \<noteq> h \<and> (\<exists>r \<in> set bs. active r \<and> key r = key r'))"
  shows "one_active bs'"
  unfolding one_active_def
proof (intro ballI impI)
  fix r' s' assume *: "r' \<in> set bs'" "s' \<in> set bs'"
    "active r' \<and> active s' \<and> height r' = height s'"
  show "block_hash r' = block_hash s'"
  proof (cases "height r' = h")
    case True
    then show ?thesis using assms(2) * by metis
  next
    case False
    then obtain r s where "r \<in> set bs" "active r" "key r = key r'" "s \<in> set bs" "active s" "key s = key s'"
      using assms(2) * by (metis (no_types, lifting))
    then show ?thesis using one_activeD [OF assms(1), of r s] * by simp
  qed
qed

text \<open>Both situations for an update given row by row.\<close>

lemma one_active_map:
  assumes "one_active bs" "\<And>r. key (f r) = key r" "\<And>r. active (f r) \<Longrightarrow> active r \<or> at hsh h r"
    "\<And>r. height r = h \<Longrightarrow> active (f r) \<Longrightarrow> block_hash r = hsh"
  shows "one_active (map f bs)"
proof (rule one_active_step [OF assms(1), of _ hsh h])
  fix r' assume r': "r' \<in> set (map f bs)" "active r'"
  then obtain r where r: "r \<in> set bs" "r' = f r" by auto
  have k: "block_hash (f r) = block_hash r" "height (f r) = height r" using assms(2) [of r] by simp_all
  show "at hsh h r' \<or> (height r' \<noteq> h \<and> (\<exists>r \<in> set bs. active r \<and> key r = key r'))"
  proof (cases "height r = h")
    case True
    then show ?thesis using assms(4) r r' k by simp
  next
    case False
    then show ?thesis using assms(2,3) r r' k by (metis (no_types, lifting))
  qed
qed

lemma one_active_map_mono:
  assumes "one_active bs" "\<And>r. key (f r) = key r" "\<And>r. active (f r) \<Longrightarrow> active r"
  shows "one_active (map f bs)"
proof (rule one_active_mono [OF assms(1)])
  fix r' assume "r' \<in> set (map f bs)" "active r'"
  then obtain r where "r \<in> set bs" "r' = f r" by auto
  then show "\<exists>r \<in> set bs. active r \<and> key r = key r'"
    using assms(2,3) \<open>active r'\<close> by metis
qed

lemma one_active_orphaning [simp, intro]:
  assumes "one_active bs"
  shows "one_active (orphan_others hsh h bs)" "one_active (orphan_siblings hsh h bs)"
    "one_active (orphan_height h bs)" "one_active (set_next nxt hsh h bs)"
    "one_active (link_prev pick hsh h bs)"
    "one_active (update_where P (\<lambda>r. r\<lparr>is_orphaned := True\<rparr>) bs)"
  unfolding link_prev_def block_updates using assms
  by (auto split: option.splits intro!: one_active_map_mono split: if_splits)

lemma one_active_revive_siblings:
  assumes "one_active bs"
  shows "one_active (revive nxt hsh h (orphan_siblings hsh h bs))"
    "one_active (orphan_others hsh h (revive nxt hsh h bs))"
  unfolding block_updates map_map comp_def
  by (rule one_active_map [OF assms, of _ hsh h]; simp split: if_splits)+

lemma one_active_insert:
  assumes "one_active bs" "height n = h" "block_hash n = hsh"
  shows "one_active (orphan_others hsh h bs @ [n])"
proof (rule one_active_step [OF assms(1), of _ hsh h])
  fix r' assume r': "r' \<in> set (orphan_others hsh h bs @ [n])" "active r'"
  show "at hsh h r' \<or> (height r' \<noteq> h \<and> (\<exists>r \<in> set bs. active r \<and> key r = key r'))"
  proof (cases "r' = n")
    case False
    then obtain r where r: "r \<in> set bs"
      "r' = (if block_hash r \<noteq> hsh \<and> height r = h then r\<lparr>is_orphaned := True\<rparr> else r)"
      using r' by (auto simp: block_updates)
    show ?thesis
    proof (cases "block_hash r \<noteq> hsh \<and> height r = h")
      case True
      then have "is_orphaned r'" unfolding r(2) by simp
      then show ?thesis using r'(2) by simp
    next
      case False
      then have "r' = r" unfolding r(2) by (rule if_not_P)
      then show ?thesis using False r(1) r'(2) by blast
    qed
  qed (use assms in simp)
qed

section \<open>The walk and the clean-up\<close>

lemma walk_ancestors_frozen: "map frozen (fst (walk_ancestors nxt cur h orphaned bs)) = map frozen bs"
proof (induction nxt cur h orphaned bs rule: walk_ancestors.induct)
  case (1 nxt cur h orphaned bs)
  show ?case
    by (subst walk_ancestors.simps) (auto simp: Let_def 1 split: list.splits)
qed

lemma walk_ancestors_one_active:
  "one_active bs \<Longrightarrow> one_active (fst (walk_ancestors nxt cur h orphaned bs))"
proof (induction nxt cur h orphaned bs rule: walk_ancestors.induct)
  case (1 nxt cur h orphaned bs)
  let ?bs = "revive nxt cur h (orphan_siblings cur h bs)"
  have "one_active ?bs" "\<And>prev. one_active (set_next cur prev (h - 1) ?bs)"
    using "1.prems" one_active_revive_siblings(1) one_active_orphaning(4) by blast+
  then show ?case
    using 1 by (subst walk_ancestors.simps) (auto simp: Let_def split: list.splits)
qed

lemma orphan_descendants_cases:
  assumes "orphan_descendants pick nxt bs = Some bs'"
    and "\<And>bs. P None bs bs"
    and "\<And>hsh bs bs'. P (map_option block_hash (select_into pick (\<lambda>r. last_block_hash r = hsh)
          (update_where (\<lambda>r. block_hash r = hsh) (\<lambda>r. r\<lparr>is_orphaned := True\<rparr>) bs)))
        (update_where (\<lambda>r. block_hash r = hsh) (\<lambda>r. r\<lparr>is_orphaned := True\<rparr>) bs) bs' \<Longrightarrow>
      P (Some hsh) bs bs'"
  shows "P nxt bs bs'"
proof -
  have "pick' = pick \<longrightarrow> P nxt bs bs'" if "orphan_descendants pick' nxt bs = Some bs'"
    for pick' nxt bs bs'
  proof (rule orphan_descendants.raw_induct [OF _ that], intro impI)
    fix f pick' nxt bs bs'
    assume IH: "\<And>pick' nxt bs bs'. f pick' nxt bs = Some bs' \<Longrightarrow> pick' = pick \<longrightarrow> P nxt bs bs'"
      and eq: "(case nxt of None \<Rightarrow> Some bs | Some hsh \<Rightarrow>
          let bs = update_where (\<lambda>r. block_hash r = hsh) (\<lambda>r. r\<lparr>is_orphaned := True\<rparr>) bs
          in f pick' (map_option block_hash (select_into pick' (\<lambda>r. last_block_hash r = hsh) bs)) bs) =
        Some bs'"
      and [simp]: "pick' = pick"
    show "P nxt bs bs'"
    proof (cases nxt)
      case None
      then show ?thesis using eq assms(2) by simp
    next
      case (Some hsh)
      then show ?thesis using eq by (auto simp: Let_def intro!: assms(3) IH [rule_format])
    qed
  qed
  then show ?thesis using assms(1) by blast
qed

lemma orphan_descendants_frozen:
  "orphan_descendants pick nxt bs = Some bs' \<Longrightarrow> map frozen bs' = map frozen bs"
  by (erule orphan_descendants_cases) simp_all

text \<open>The clean-up only orphans.\<close>

definition only_orphans :: "block_row list \<Rightarrow> block_row list \<Rightarrow> bool" where
  "only_orphans bs bs' \<longleftrightarrow>
    list_all2 (\<lambda>r r'. r' = r \<or> r' = r\<lparr>is_orphaned := True\<rparr>) bs bs'"

lemma only_orphans_refl [simp]: "only_orphans bs bs"
  by (simp add: only_orphans_def list.rel_refl)

lemma only_orphans_trans:
  assumes "only_orphans as bs" "only_orphans bs cs"
  shows "only_orphans as cs"
  using assms unfolding only_orphans_def
  by (rule list_all2_trans [rotated 1]) auto

lemma only_orphans_update [simp]:
  "only_orphans bs (update_where P (\<lambda>r. r\<lparr>is_orphaned := True\<rparr>) bs)"
  by (auto simp: only_orphans_def update_where_def list_all2_conv_all_nth)

lemma only_orphansD:
  assumes "only_orphans bs bs'" "r' \<in> set bs'" "active r'"
  shows "r' \<in> set bs"
proof -
  obtain k where "k < length bs'" "r' = bs' ! k"
    using assms(2) by (auto simp: in_set_conv_nth)
  then have "r' = bs ! k" "k < length bs"
    using assms(1,3) by (auto simp: only_orphans_def list_all2_conv_all_nth)
  then show ?thesis by simp
qed

lemma orphan_descendants_only_orphans:
  "orphan_descendants pick nxt bs = Some bs' \<Longrightarrow> only_orphans bs bs'"
  by (erule orphan_descendants_cases) (auto intro: only_orphans_trans [OF only_orphans_update])

lemma validate_ancestors_keeps:
  assumes "validate_ancestors pick hsh h prev bs = Some (Inr bs')"
  shows "map frozen bs' = map frozen bs" "one_active bs \<Longrightarrow> one_active bs'"
proof -
  let ?step = "case select_into pick (\<lambda>r. block_hash r = prev) bs of
      None \<Rightarrow> (bs, Missing (Some hsh) (h - 1))
    | Some p \<Rightarrow> walk_ancestors hsh (block_hash p) (height p) (is_orphaned p) bs"
  obtain bs1 w where step: "?step = (bs1, w)" by fastforce
  have bs1: "bs1 = bs \<or> (\<exists>cur k o'. bs1 = fst (walk_ancestors hsh cur k o' bs))"
    using step by (cases "select_into pick (\<lambda>r. block_hash r = prev) bs") (simp, metis fst_conv option.simps(5))
  have f1: "map frozen bs1 = map frozen bs"
    using bs1 walk_ancestors_frozen by blast
  have a1: "one_active bs1" if "one_active bs"
    using bs1 walk_ancestors_one_active [OF that] that by blast
  have "map frozen bs' = map frozen bs \<and> (one_active bs \<longrightarrow> one_active bs')"
  proof (cases w)
    case Reached
    then show ?thesis using assms step f1 a1 by (simp add: validate_ancestors_def)
  next
    case (Missing nxt ph)
    then have d: "orphan_descendants pick nxt (orphan_height ph bs1) = Some bs'"
      using assms step by (auto simp: validate_ancestors_def)
    have "one_active bs'" if "one_active bs"
      using one_active_mono [OF one_active_orphaning(3) [OF a1 [OF that]]]
        only_orphansD [OF orphan_descendants_only_orphans [OF d]] by blast
    then show ?thesis
      using orphan_descendants_frozen [OF d] f1 by simp
  next
    case TooManyRows
    then show ?thesis using assms step by (simp add: validate_ancestors_def)
  qed
  then show "map frozen bs' = map frozen bs" "one_active bs \<Longrightarrow> one_active bs'" by simp_all
qed

section \<open>\<open>block_insert\<close>\<close>

text \<open>The three ways a call that changes the table can end.\<close>

abbreviation refused :: "BlockHeader \<Rightarrow> bool \<Rightarrow> db \<Rightarrow> bool" where
  "refused b recover d \<equiv>
    \<not> header_i32 b \<or> too_low (last_height (blocks d)) (b_Height b) \<and> \<not> recover"

lemma block_insert_refused:
  assumes "refused b recover d" "block_insert pick b mined median recover d = Some (res, d')"
  shows "d' = d \<and> \<not> is_ok res"
  using assms unfolding block_insert_def by (auto split: if_splits)

lemma insert_newE:
  assumes "insert_new pick b mined median lh bs d = Some (res, d')"
  obtains "d' = d" "\<not> is_ok res"
  | bs' where "res = Inr (block_seq d)" "d' = d\<lparr>blocks := bs', block_seq := block_seq d + 1\<rparr>"
    "bs' = bs @ [new_block_row (block_seq d) b mined median] \<and> lh = None \<or>
     validate_ancestors pick (b_Hash b) (b_Height b) (b_PrevHash b)
      (bs @ [new_block_row (block_seq d) b mined median]) = Some (Inr bs') \<and> lh \<noteq> None"
  using assms by (auto simp: insert_new_def Let_def split: option.splits sum.splits)

lemma two_cases:
  obtains "xs = []" | x where "xs = [x]" | x y ys where "xs = x # y # ys"
  by (cases xs rule: list.exhaust; cases "tl xs") auto

lemma block_insert_cases:
  assumes "block_insert pick b mined median recover d = Some (res, d')"
  obtains (unchanged) "d' = d" "\<not> is_ok res"
  | (known) r where "filter (at (b_Hash b) (b_Height b)) (blocks d) \<noteq> []" "res = Inr (blk_id r)"
      "r \<in> set (blocks d')" "at (b_Hash b) (b_Height b) r"
      "d' = d\<lparr>blocks := orphan_others (b_Hash b) (b_Height b) (revive (b_NextHash b) (b_Hash b)
        (b_Height b) (link_prev pick (b_Hash b) (b_Height b) (blocks d)))\<rparr>"
  | (new) bs where "filter (at (b_Hash b) (b_Height b)) (blocks d) = []" "res = Inr (block_seq d)"
      "d' = d\<lparr>blocks := bs, block_seq := block_seq d + 1\<rparr>"
      "bs = orphan_others (b_Hash b) (b_Height b) (link_prev pick (b_Hash b) (b_Height b) (blocks d)) @
         [new_block_row (block_seq d) b mined median] \<and> last_height (blocks d) = None \<or>
       validate_ancestors pick (b_Hash b) (b_Height b) (b_PrevHash b)
        (orphan_others (b_Hash b) (b_Height b) (link_prev pick (b_Hash b) (b_Height b) (blocks d)) @
         [new_block_row (block_seq d) b mined median]) = Some (Inr bs) \<and> last_height (blocks d) \<noteq> None"
proof -
  let ?hsh = "b_Hash b" and ?h = "b_Height b"
  let ?l = "link_prev pick ?hsh ?h (blocks d)"
  let ?bs = "revive (b_NextHash b) ?hsh ?h ?l"
  have keys: "map key ?bs = map key (blocks d)" "map key ?l = map key (blocks d)"
    by (rule key_of_frozen, simp)+
  have "filter (at ?hsh ?h) bs = [] \<longleftrightarrow> (?hsh, ?h) \<notin> set (map key bs)" for bs
    by (force simp: filter_empty_conv image_iff)
  then have none: "filter (at ?hsh ?h) ?bs = [] \<longleftrightarrow> filter (at ?hsh ?h) (blocks d) = []"
    "filter (at ?hsh ?h) ?l = [] \<longleftrightarrow> filter (at ?hsh ?h) (blocks d) = []"
    using keys by presburger+
  have same: "?bs = ?l" if "filter (at ?hsh ?h) (blocks d) = []"
    using none(2) that by (auto simp: revive_def update_where_def filter_empty_conv intro!: map_idI)
  let ?bs' = "orphan_others ?hsh ?h ?bs"
  show thesis
  proof (cases "refused b recover d")
    case True
    then show thesis using block_insert_refused [OF _ assms] unchanged by blast
  next
    case False
    then have c: "header_i32 b" "\<not> (too_low (last_height (blocks d)) ?h \<and> \<not> recover)"
      by blast+
    have run: "block_insert pick b mined median recover d =
        (case filter (at ?hsh ?h) ?bs of
           [] \<Rightarrow> insert_new pick b mined median (last_height (blocks d)) ?bs' d
         | [r] \<Rightarrow> Some (Inr (blk_id r), d\<lparr>blocks := ?bs'\<rparr>)
         | _ # _ # _ \<Rightarrow> Some (sql_error ''query returned more than one row'', d))"
      unfolding block_insert_def Let_def by (simp only: c not_True_eq_False if_False)
    show thesis
    proof (cases "filter (at ?hsh ?h) ?bs" rule: two_cases)
      case 1
      then have e: "filter (at ?hsh ?h) (blocks d) = []" using none by simp
      have "insert_new pick b mined median (last_height (blocks d)) (orphan_others ?hsh ?h ?l) d =
          Some (res, d')"
        using assms run 1 same [OF e] by simp
      then show thesis
      proof (rule insert_newE)
        assume "d' = d" "\<not> is_ok res"
        then show thesis by (rule unchanged)
      next
        fix bs' assume *: "res = Inr (block_seq d)"
          "d' = d\<lparr>blocks := bs', block_seq := block_seq d + 1\<rparr>"
          "bs' = orphan_others ?hsh ?h ?l @ [new_block_row (block_seq d) b mined median] \<and>
            last_height (blocks d) = None \<or>
          validate_ancestors pick ?hsh ?h (b_PrevHash b)
            (orphan_others ?hsh ?h ?l @ [new_block_row (block_seq d) b mined median]) =
            Some (Inr bs') \<and> last_height (blocks d) \<noteq> None"
        show thesis by (rule new [OF e *])
      qed
    next
      case (2 r)
      then have "r \<in> set (filter (at ?hsh ?h) ?bs)" by simp
      then have r: "r \<in> set ?bs'" "at ?hsh ?h r"
        by (auto simp: orphan_others_def update_where_def image_iff)
      have ne: "filter (at ?hsh ?h) (blocks d) \<noteq> []" using none 2 by auto
      have "(res, d') = (Inr (blk_id r), d\<lparr>blocks := ?bs'\<rparr>)"
        using assms unfolding run 2 by (simp only: list.case option.inject)
      then have "res = Inr (blk_id r)" "d' = d\<lparr>blocks := ?bs'\<rparr>" by blast+
      moreover from this r(1) have "r \<in> set (blocks d')" by simp
      ultimately show thesis using r(2) by (intro known [OF ne])
    next
      case (3 r r' rs)
      have "(res, d') = (sql_error ''query returned more than one row'', d)"
        using assms unfolding run 3 by (simp only: list.case option.inject)
      then show thesis using unchanged by simp
    qed
  qed
qed

lemma uniq_keys_append_new:
  assumes "uniq_keys bs" "filter (at hsh h) bs = []" "map frozen bs' = map frozen bs" "key n = (hsh, h)"
  shows "uniq_keys (bs' @ [n])"
proof -
  have "map key bs' = map key bs" using assms(3) by (rule key_of_frozen)
  moreover have "(hsh, h) \<notin> set (map key bs)"
    using assms(2) by (force simp: filter_empty_conv)
  ultimately show ?thesis using assms(1,4) unfolding uniq_keys_def by simp
qed

lemma new_block_row_sel [simp]:
  "block_hash (new_block_row i b mi me) = b_Hash b" "height (new_block_row i b mi me) = b_Height b"
  "last_block_hash (new_block_row i b mi me) = b_PrevHash b" "blk_id (new_block_row i b mi me) = i"
  "active (new_block_row i b mi me)" "next_block_hash (new_block_row i b mi me) = b_NextHash b"
  by (simp_all add: new_block_row_def)

lemma block_insert_blocks:
  assumes "block_insert pick b mined median recover d = Some (res, d')"
    "uniq_keys (blocks d)" "one_active (blocks d)"
  shows "uniq_keys (blocks d') \<and> one_active (blocks d')"
  using assms(1)
proof (cases rule: block_insert_cases)
  case unchanged
  then show ?thesis using assms by simp
next
  case (known r)
  let ?l = "link_prev pick (b_Hash b) (b_Height b) (blocks d)"
  let ?bs = "orphan_others (b_Hash b) (b_Height b)
      (revive (b_NextHash b) (b_Hash b) (b_Height b) ?l)"
  have "one_active ?l" using assms(3) by blast
  then have "one_active ?bs" by (rule one_active_revive_siblings(2))
  moreover have "uniq_keys ?bs"
    using assms(2) uniq_keys_frozen [of ?bs "blocks d"] by simp
  ultimately show ?thesis unfolding known(5) by simp
next
  case (new bs)
  let ?l = "link_prev pick (b_Hash b) (b_Height b) (blocks d)"
  let ?bs = "orphan_others (b_Hash b) (b_Height b) ?l @ [new_block_row (block_seq d) b mined median]"
  have u: "uniq_keys ?bs"
    by (rule uniq_keys_append_new [OF assms(2) new(1)]) simp_all
  have a: "one_active ?bs"
    using assms(3) by (intro one_active_insert) auto
  have "uniq_keys bs \<and> one_active bs"
    using new(4) u a validate_ancestors_keeps [of pick "b_Hash b" "b_Height b" "b_PrevHash b" ?bs bs]
      uniq_keys_frozen by blast
  then show ?thesis unfolding new(3) by simp
qed

end
