(* ===== verification/Db_Inv.thy ===== *)
theory Db_Inv
  imports Db_Blocks
begin

text \<open>
  The invariant of the whole database and its preservation by every stored procedure: keys are
  unique, sequences run ahead of the identifiers, at most one block per height is active, and no
  row refers to a missing one.  The reachable databases are those the procedures build from the
  empty one, in any order and with any arguments.
\<close>

definition wf_blocks :: "db \<Rightarrow> bool" where
  "wf_blocks d \<longleftrightarrow> uniq_keys (blocks d) \<and> one_active (blocks d) \<and>
     distinct (map blk_id (blocks d)) \<and> (\<forall>r \<in> set (blocks d). blk_id r < block_seq d)"

definition wf_txs :: "db \<Rightarrow> bool" where
  "wf_txs d \<longleftrightarrow> distinct (map t_txid (txs d)) \<and> distinct (map t_hash (txs d)) \<and>
     distinct (map t_id (txs d)) \<and> (\<forall>t \<in> set (txs d). t_id t < tx_seq d) \<and>
     (\<forall>t \<in> set (txs d). t_block_id t \<in> insert None (Some ` blk_id ` set (blocks d)))"

abbreviation in_key :: "input_row \<Rightarrow> int \<times> int" where
  "in_key i \<equiv> (i_transaction_id i, i_vin i)"

abbreviation out_key :: "output_row \<Rightarrow> int \<times> int" where
  "out_key o' \<equiv> (o_transaction_id o', o_vout o')"

definition wf_ios :: "db \<Rightarrow> bool" where
  "wf_ios d \<longleftrightarrow> distinct (map in_key (inputs d)) \<and> distinct (map out_key (outputs d)) \<and>
     i_transaction_id ` set (inputs d) \<subseteq> t_id ` set (txs d) \<and>
     o_transaction_id ` set (outputs d) \<subseteq> t_id ` set (txs d)"

definition wf_db :: "db \<Rightarrow> bool" where
  "wf_db d \<longleftrightarrow> wf_blocks d \<and> wf_txs d \<and> wf_ios d"

lemmas wf_defs = wf_db_def wf_blocks_def wf_txs_def wf_ios_def

lemma wf_db_empty: "wf_db empty_db"
  by (simp add: wf_defs empty_db_def uniq_keys_def one_active_def)

section \<open>Preservation by \<open>block_insert\<close>\<close>

lemma ids_of_frozen: "map frozen bs' = map frozen bs \<Longrightarrow> map blk_id bs' = map blk_id bs"
  by (drule arg_cong [of _ _ "map fst"]) (simp add: comp_def)

lemma block_insert_ids:
  assumes "block_insert pick b mined median recover d = Some (res, d')"
  shows "map blk_id (blocks d') = map blk_id (blocks d) \<and> block_seq d' = block_seq d \<or>
    map blk_id (blocks d') = map blk_id (blocks d) @ [block_seq d] \<and> block_seq d' = block_seq d + 1"
    "txs d' = txs d" "inputs d' = inputs d" "outputs d' = outputs d" "tx_seq d' = tx_seq d"
proof -
  let ?l = "link_prev pick (b_Hash b) (b_Height b) (blocks d)"
  have "(map blk_id (blocks d') = map blk_id (blocks d) \<and> block_seq d' = block_seq d \<or>
      map blk_id (blocks d') = map blk_id (blocks d) @ [block_seq d] \<and> block_seq d' = block_seq d + 1) \<and>
    txs d' = txs d \<and> inputs d' = inputs d \<and> outputs d' = outputs d \<and> tx_seq d' = tx_seq d"
    using assms
  proof (cases rule: block_insert_cases)
    case unchanged
    then show ?thesis by simp
  next
    case (known r)
    have "map blk_id (orphan_others (b_Hash b) (b_Height b)
        (revive (b_NextHash b) (b_Hash b) (b_Height b) ?l)) = map blk_id (blocks d)"
      by (rule ids_of_frozen) simp
    then show ?thesis unfolding known(5) by simp
  next
    case (new bs)
    let ?bs = "orphan_others (b_Hash b) (b_Height b) ?l @ [new_block_row (block_seq d) b mined median]"
    have "map blk_id (orphan_others (b_Hash b) (b_Height b) ?l) = map blk_id (blocks d)"
      by (rule ids_of_frozen) simp
    moreover have "map blk_id bs = map blk_id ?bs"
      using new(4) ids_of_frozen [OF validate_ancestors_keeps(1)] by blast
    ultimately show ?thesis unfolding new(3) by simp
  qed
  then show "map blk_id (blocks d') = map blk_id (blocks d) \<and> block_seq d' = block_seq d \<or>
      map blk_id (blocks d') = map blk_id (blocks d) @ [block_seq d] \<and> block_seq d' = block_seq d + 1"
    "txs d' = txs d" "inputs d' = inputs d" "outputs d' = outputs d" "tx_seq d' = tx_seq d"
    by blast+
qed

lemma block_insert_wf:
  assumes "block_insert pick b mined median recover d = Some (res, d')" "wf_db d"
  shows "wf_db d'"
proof -
  note ids = block_insert_ids [OF assms(1)]
  have "uniq_keys (blocks d') \<and> one_active (blocks d')"
    using block_insert_blocks [OF assms(1)] assms(2) by (simp add: wf_defs)
  moreover have "distinct (map blk_id (blocks d')) \<and> (\<forall>i \<in> set (map blk_id (blocks d')). i < block_seq d')"
    using ids(1) assms(2) unfolding wf_db_def wf_blocks_def by (elim disjE) auto
  ultimately have b: "wf_blocks d'" by (simp add: wf_blocks_def)
  have "set (map blk_id (blocks d)) \<subseteq> set (map blk_id (blocks d'))"
    using ids(1) by (elim disjE conjE; simp only: set_append) blast
  then have "Some ` blk_id ` set (blocks d) \<subseteq> Some ` blk_id ` set (blocks d')"
    unfolding set_map by (rule image_mono)
  then have "wf_txs d'"
    using assms(2) ids(2,5) unfolding wf_db_def wf_txs_def by (simp only:) blast
  then show ?thesis using b assms(2) ids by (simp add: wf_db_def wf_ios_def)
qed

section \<open>Preservation by \<open>transaction_insert\<close>\<close>

lemma input_insert_grows:
  assumes "input_insert tid vs d = (res, d')"
  shows "\<exists>new k. d' = d\<lparr>inputs := inputs d @ new, input_seq := k\<rparr> \<and>
    (\<forall>i \<in> set new. i_transaction_id i = tid) \<and>
    (distinct (map in_key (inputs d)) \<longrightarrow> distinct (map in_key (inputs d @ new)))"
  using assms
proof (induction tid vs d rule: input_insert.induct)
  case (1 tid d)
  then show ?case by (intro exI [of _ "[]"] exI [of _ "input_seq d"]) simp
next
  case (2 tid v vs d)
  let ?dup = "\<exists>r \<in> set (inputs d). i_transaction_id r = tid \<and> i_vin r = in_Vin v"
  consider "\<not> in_i32 (in_Vin v) \<or> \<not> in_i32 (in_SpentVout v)" | "in_i32 (in_Vin v)" "in_i32 (in_SpentVout v)" ?dup
    | "in_i32 (in_Vin v)" "in_i32 (in_SpentVout v)" "\<not> ?dup" by blast
  then show ?case
  proof cases
    case 1
    then have "d' = d" using "2.prems" by auto
    then show ?thesis by (intro exI [of _ "[]"] exI [of _ "input_seq d"]) simp
  next
    case 2
    then show ?thesis using "2.IH"(1) "2.prems" by auto
  next
    case 3
    let ?n = "new_input_row (input_seq d) tid v"
    let ?d = "d\<lparr>inputs := inputs d @ [?n], input_seq := input_seq d + 1\<rparr>"
    have n: "in_key ?n = (tid, in_Vin v)" "i_transaction_id ?n = tid" by (simp_all add: new_input_row_def)
    have "input_insert tid vs ?d = (res, d')"
      using "2.prems" by (simp only: input_insert.simps 3 simp_thms if_False)
    then obtain new k where new: "d' = ?d\<lparr>inputs := inputs ?d @ new, input_seq := k\<rparr>"
      "\<forall>i \<in> set new. i_transaction_id i = tid"
      "distinct (map in_key (inputs ?d)) \<longrightarrow> distinct (map in_key (inputs ?d @ new))"
      using "2.IH"(2) 3 by blast
    have "distinct (map in_key (inputs d)) \<Longrightarrow> distinct (map in_key (inputs ?d))"
      using 3(3) n by auto
    then show ?thesis
      using new n by (intro exI [of _ "?n # new"] exI [of _ k]) auto
  qed
qed

lemma output_insert_grows:
  assumes "output_insert tid vs d = (res, d')"
  shows "\<exists>new k. d' = d\<lparr>outputs := outputs d @ new, output_seq := k\<rparr> \<and>
    (\<forall>i \<in> set new. o_transaction_id i = tid) \<and>
    (distinct (map out_key (outputs d)) \<longrightarrow> distinct (map out_key (outputs d @ new)))"
  using assms
proof (induction tid vs d rule: output_insert.induct)
  case (1 tid d)
  then show ?case by (intro exI [of _ "[]"] exI [of _ "output_seq d"]) simp
next
  case (2 tid v vs d)
  let ?dup = "\<exists>r \<in> set (outputs d). o_transaction_id r = tid \<and> o_vout r = out_Vout v"
  consider "\<not> in_i32 (out_Vout v) \<or> \<not> in_i32 (out_ReqSigs v)" | "in_i32 (out_Vout v)" "in_i32 (out_ReqSigs v)" ?dup
    | "in_i32 (out_Vout v)" "in_i32 (out_ReqSigs v)" "\<not> ?dup" by blast
  then show ?case
  proof cases
    case 1
    then have "d' = d" using "2.prems" by auto
    then show ?thesis by (intro exI [of _ "[]"] exI [of _ "output_seq d"]) simp
  next
    case 2
    then show ?thesis using "2.IH"(1) "2.prems" by auto
  next
    case 3
    let ?n = "new_output_row (output_seq d) tid v"
    let ?d = "d\<lparr>outputs := outputs d @ [?n], output_seq := output_seq d + 1\<rparr>"
    have n: "out_key ?n = (tid, out_Vout v)" "o_transaction_id ?n = tid" by (simp_all add: new_output_row_def)
    have "output_insert tid vs ?d = (res, d')"
      using "2.prems" by (simp only: output_insert.simps 3 simp_thms if_False)
    then obtain new k where new: "d' = ?d\<lparr>outputs := outputs ?d @ new, output_seq := k\<rparr>"
      "\<forall>i \<in> set new. o_transaction_id i = tid"
      "distinct (map out_key (outputs ?d)) \<longrightarrow> distinct (map out_key (outputs ?d @ new))"
      using "2.IH"(2) 3 by blast
    have "distinct (map out_key (outputs d)) \<Longrightarrow> distinct (map out_key (outputs ?d))"
      using 3(3) n by auto
    then show ?thesis
      using new n by (intro exI [of _ "?n # new"] exI [of _ k]) auto
  qed
qed

text \<open>The ways a call of \<open>transaction_insert\<close> can end.\<close>

lemma transaction_insert_cases:
  assumes "transaction_insert block_id t raw idx d = (res, d')"
  obtains (failed) "d' = d" "\<not> is_ok res"
  | (pending) "d' = d" "res = Inr ()" "td_txid t \<in> t_txid ` set (txs d)" "block_id = -1"
  | (mined) r where "r \<in> set (txs d)" "t_txid r = td_txid t" "block_id \<noteq> -1" "res = Inr ()"
      "block_id_ok d (Some block_id)"
      "d' = d\<lparr>txs := update_where (\<lambda>s. t_id s = t_id r)
         (\<lambda>s. s\<lparr>t_block_id := Some block_id, t_index := opt_of idx\<rparr>) (txs d)\<rparr>"
  | (inserted) lt d2 where "td_txid t \<notin> t_txid ` set (txs d)" "td_hash t \<notin> t_hash ` set (txs d)"
      "res = Inr ()" "block_id_ok d (opt_of block_id)"
      "input_insert (tx_seq d) (td_inputs t) (d\<lparr>txs := txs d @
         [new_tx_row (tx_seq d) (opt_of idx) (opt_of block_id) t raw lt], tx_seq := tx_seq d + 1\<rparr>) =
         (Inr (), d2)"
      "output_insert (tx_seq d) (td_outputs t) d2 = (Inr (), d')"
proof (cases "filter (\<lambda>r. t_txid r = td_txid t) (txs d)")
  case Nil
  then have "td_txid t \<notin> t_txid ` set (txs d)" by (auto simp: filter_empty_conv)
  then show thesis
    using assms Nil failed inserted
    by (auto simp: transaction_insert_def Let_def split: prod.splits option.splits if_splits sum.splits)
next
  case (Cons r rs)
  then have "r \<in> set (filter (\<lambda>r. t_txid r = td_txid t) (txs d))" by simp
  then have r: "r \<in> set (txs d)" "t_txid r = td_txid t" by auto
  then have i: "td_txid t \<in> t_txid ` set (txs d)" by force
  let ?d = "d\<lparr>txs := update_where (\<lambda>s. t_id s = t_id r)
      (\<lambda>s. s\<lparr>t_block_id := opt_of block_id, t_index := opt_of idx\<rparr>) (txs d)\<rparr>"
  have run: "(res, d') =
      (if opt_of block_id = None then (Inr (), d)
       else if \<not> block_id_ok d (opt_of block_id) then
         (sql_error ''insert or update violates foreign key constraint'', d)
       else if (case opt_of idx of None \<Rightarrow> False | Some i \<Rightarrow> \<not> in_i32 i) then
         (sql_error ''integer out of range'', d)
       else (Inr (), ?d))"
    using assms unfolding transaction_insert_def Let_def Cons by (simp only: list.case)
  show thesis
  proof (cases "opt_of block_id = None")
    case True
    then have "(res, d') = (Inr (), d)" unfolding run by (rule if_P)
    then show thesis using pending i True by (simp add: opt_of_def split: if_splits)
  next
    case False
    then have b: "opt_of block_id = Some block_id" "block_id \<noteq> -1"
      by (simp_all add: opt_of_def split: if_splits)
    show thesis
    proof (cases "block_id_ok d (opt_of block_id) \<and>
        \<not> (case opt_of idx of None \<Rightarrow> False | Some i \<Rightarrow> \<not> in_i32 i)")
      case True
      then have "(res, d') = (Inr (), ?d)" using False run by (simp only: simp_thms if_False)
      then show thesis using True b mined [OF r] by simp
    next
      case no: False
      then have "\<exists>m. (res, d') = (sql_error m, d)"
        unfolding run if_not_P [OF False] by (simp split: if_split)
      then show thesis using failed by auto
    qed
  qed
qed

lemma update_tx_cols:
  assumes "txs' = update_where P (\<lambda>s. s\<lparr>t_block_id := bid, t_index := ix\<rparr>) ts"
  shows "map t_id txs' = map t_id ts" "map t_txid txs' = map t_txid ts"
    "map t_hash txs' = map t_hash ts"
    "t \<in> set txs' \<Longrightarrow> t_block_id t = bid \<or> (\<exists>s \<in> set ts. t_block_id t = t_block_id s)"
  unfolding assms update_where_def by (auto split: if_splits)

lemma wf_txs_cong:
  assumes "wf_txs d" "map t_id (txs d') = map t_id (txs d)" "map t_txid (txs d') = map t_txid (txs d)"
    "map t_hash (txs d') = map t_hash (txs d)" "tx_seq d' = tx_seq d" "blocks d' = blocks d"
    "\<And>t. t \<in> set (txs d') \<Longrightarrow> t_block_id t \<in> insert None (Some ` blk_id ` set (blocks d))"
  shows "wf_txs d'"
proof -
  have "\<forall>i \<in> set (map t_id (txs d')). i < tx_seq d'"
    using assms(1) unfolding assms(2,5) wf_txs_def by simp
  then have "\<forall>t \<in> set (txs d'). t_id t < tx_seq d'" by simp
  then show ?thesis using assms by (simp add: wf_txs_def)
qed

lemma wf_ios_cong:
  assumes "wf_ios d" "map t_id (txs d') = map t_id (txs d)" "inputs d' = inputs d" "outputs d' = outputs d"
  shows "wf_ios d'"
proof -
  have "t_id ` set (txs d') = t_id ` set (txs d)"
    using assms(2) by (metis list.set_map)
  then show ?thesis using assms by (simp add: wf_ios_def)
qed

lemma transaction_insert_wf:
  assumes "transaction_insert block_id t raw idx d = (res, d')" "wf_db d"
  shows "wf_db d'"
  using assms(1)
proof (cases rule: transaction_insert_cases)
  case failed
  then show ?thesis using assms by simp
next
  case pending
  then show ?thesis using assms by simp
next
  case (mined r)
  have t: "txs d' = update_where (\<lambda>s. t_id s = t_id r)
      (\<lambda>s. s\<lparr>t_block_id := Some block_id, t_index := opt_of idx\<rparr>) (txs d)"
    unfolding mined(6) by simp
  note cols = update_tx_cols [OF t]
  have "wf_txs d'"
  proof (rule wf_txs_cong [OF _ cols(1-3)])
    show "t' \<in> set (txs d') \<Longrightarrow> t_block_id t' \<in> insert None (Some ` blk_id ` set (blocks d))" for t'
      using cols(4) [of t'] mined(5) assms(2) unfolding wf_db_def wf_txs_def block_id_ok_def option.case
      by (metis imageI insertI2)
  qed (use assms(2) mined(6) in \<open>simp_all add: wf_db_def\<close>)
  moreover have "wf_ios d'"
    by (rule wf_ios_cong [OF _ cols(1)]) (use assms(2) mined(6) in \<open>simp_all add: wf_db_def\<close>)
  ultimately show ?thesis
    using assms(2) mined(6) by (simp add: wf_db_def wf_blocks_def)
next
  case (inserted lt d2)
  let ?t = "new_tx_row (tx_seq d) (opt_of idx) (opt_of block_id) t raw lt"
  obtain ni k where d2: "d2 = d\<lparr>txs := txs d @ [?t], tx_seq := tx_seq d + 1, inputs := inputs d @ ni, input_seq := k\<rparr>"
      "\<forall>i \<in> set ni. i_transaction_id i = tx_seq d"
      "distinct (map in_key (inputs d)) \<longrightarrow> distinct (map in_key (inputs d @ ni))"
    using input_insert_grows [OF inserted(5)] by auto
  obtain no k' where d': "d' = d2\<lparr>outputs := outputs d2 @ no, output_seq := k'\<rparr>"
      "\<forall>i \<in> set no. o_transaction_id i = tx_seq d"
      "distinct (map out_key (outputs d2)) \<longrightarrow> distinct (map out_key (outputs d2 @ no))"
    using output_insert_grows [OF inserted(6)] by auto
  have sel: "txs d' = txs d @ [?t]" "tx_seq d' = tx_seq d + 1" "inputs d' = inputs d @ ni"
    "outputs d' = outputs d @ no" "blocks d' = blocks d" "block_seq d' = block_seq d"
    unfolding d'(1) d2(1) by simp_all
  have t: "t_id ?t = tx_seq d" "t_txid ?t = td_txid t" "t_hash ?t = td_hash t"
    "t_block_id ?t = opt_of block_id"
    by (simp_all add: new_tx_row_def)
  have bid: "opt_of block_id \<in> insert None (Some ` blk_id ` set (blocks d))"
    using inserted(4) by (cases "opt_of block_id") (simp_all add: block_id_ok_def)
  have w: "wf_txs d" "wf_ios d" "wf_blocks d" using assms(2) by (simp_all add: wf_db_def)
  have fresh: "tx_seq d \<notin> t_id ` set (txs d)"
    using w(1) by (auto simp: wf_txs_def)
  have "wf_txs d'"
    unfolding wf_txs_def sel map_append distinct_append set_append list.map t
  proof (intro conjI)
    show "\<forall>t \<in> set (txs d) \<union> set [?t]. t_id t < tx_seq d + 1"
      using w(1) t(1) by (auto simp: wf_txs_def)
    show "\<forall>t \<in> set (txs d) \<union> set [?t]. t_block_id t \<in> insert None (Some ` blk_id ` set (blocks d))"
      using w(1) t(4) bid unfolding wf_txs_def by (metis Un_iff empty_iff list.set(1) set_ConsD)
  qed (use w(1) inserted(1,2) fresh in \<open>simp_all add: wf_txs_def\<close>)
  moreover have "wf_ios d'"
    unfolding wf_ios_def sel
  proof (intro conjI)
    show "distinct (map in_key (inputs d @ ni))" using d2(3) w(2) by (simp only: wf_ios_def)
    show "distinct (map out_key (outputs d @ no))"
      using d'(3) w(2) unfolding d2(1) by (simp add: wf_ios_def)
    show "i_transaction_id ` set (inputs d @ ni) \<subseteq> t_id ` set (txs d @ [?t])"
      using d2(2) w(2) t(1) unfolding wf_ios_def by auto
    show "o_transaction_id ` set (outputs d @ no) \<subseteq> t_id ` set (txs d @ [?t])"
      using d'(2) w(2) t(1) unfolding wf_ios_def by auto
  qed
  moreover have "wf_blocks d'" using w(3) by (simp add: wf_blocks_def sel)
  ultimately show ?thesis by (simp add: wf_db_def)
qed

section \<open>Preservation by the deletions\<close>

lemma wf_filter:
  assumes "wf_db d" "txs d' = filter P (txs d)" "inputs d' = filter Q (inputs d)"
    "outputs d' = filter R (outputs d)" "blocks d' = blocks d" "block_seq d' = block_seq d"
    "tx_seq d' = tx_seq d"
    "\<And>i t. Q i \<Longrightarrow> t \<in> set (txs d) \<Longrightarrow> i_transaction_id i = t_id t \<Longrightarrow> P t"
    "\<And>i t. R i \<Longrightarrow> t \<in> set (txs d) \<Longrightarrow> o_transaction_id i = t_id t \<Longrightarrow> P t"
  shows "wf_db d'"
proof -
  have "wf_txs d'"
    using assms(1) unfolding wf_db_def wf_txs_def assms(2,5,7) by (simp add: distinct_map_filter)
  moreover have "i_transaction_id ` set (inputs d') \<subseteq> t_id ` set (txs d')"
  proof (intro image_subsetI)
    fix i assume "i \<in> set (inputs d')"
    then have i: "i \<in> set (inputs d)" "Q i" unfolding assms(3) by simp_all
    then obtain t where t: "t \<in> set (txs d)" "i_transaction_id i = t_id t"
      using assms(1) unfolding wf_db_def wf_ios_def by blast
    then show "i_transaction_id i \<in> t_id ` set (txs d')"
      using assms(8) [OF i(2) t] unfolding assms(2) by simp
  qed
  moreover have "o_transaction_id ` set (outputs d') \<subseteq> t_id ` set (txs d')"
  proof (intro image_subsetI)
    fix i assume "i \<in> set (outputs d')"
    then have i: "i \<in> set (outputs d)" "R i" unfolding assms(4) by simp_all
    then obtain t where t: "t \<in> set (txs d)" "o_transaction_id i = t_id t"
      using assms(1) unfolding wf_db_def wf_ios_def by blast
    then show "o_transaction_id i \<in> t_id ` set (txs d')"
      using assms(9) [OF i(2) t] unfolding assms(2) by simp
  qed
  ultimately show ?thesis
    using assms(1) unfolding wf_db_def wf_ios_def wf_blocks_def assms(3-6)
    by (simp add: distinct_map_filter)
qed

lemma delete_orphans_wf: "wf_db d \<Longrightarrow> wf_db (snd (delete_orphans d))"
  by (rule wf_filter [where P = "\<lambda>t. t_id t \<notin> set (orphan_ids d)"
        and Q = "\<lambda>i. i_transaction_id i \<notin> set (orphan_ids d)"
        and R = "\<lambda>i. o_transaction_id i \<notin> set (orphan_ids d)"])
    (simp_all add: delete_orphans_def Let_def)

lemma delete_invalid_txs_wf: "wf_db d \<Longrightarrow> wf_db (snd (delete_invalid_txs ids d))"
  by (rule wf_filter [where P = "\<lambda>t. \<not> (t_id t \<in> set ids \<and> t_block_id t = None)"
        and Q = "\<lambda>i. i_transaction_id i \<notin>
          set (map t_id (filter (\<lambda>t. t_id t \<in> set ids \<and> t_block_id t = None) (txs d)))"
        and R = "\<lambda>i. o_transaction_id i \<notin>
          set (map t_id (filter (\<lambda>t. t_id t \<in> set ids \<and> t_block_id t = None) (txs d)))"])
    (auto simp: delete_invalid_txs_def Let_def)

section \<open>Reachable databases\<close>

inductive db_step :: "db \<Rightarrow> db \<Rightarrow> bool" where
  insert_block: "block_insert pick b mined median recover d = Some (res, d') \<Longrightarrow> db_step d d'"
| insert_tx: "transaction_insert block_id t raw idx d = (res', d') \<Longrightarrow> db_step d d'"
| remove_orphans: "db_step d (snd (delete_orphans d))"
| remove_invalid: "db_step d (snd (delete_invalid_txs ids d))"
| set_metadata: "db_step d (d\<lparr>metadata := (metadata d)(k \<mapsto> v)\<rparr>)"

lemma db_step_wf:
  assumes "db_step d d'" "wf_db d"
  shows "wf_db d'"
  using assms
proof (induction rule: db_step.induct)
  case (set_metadata d k v)
  then show ?case by (simp add: wf_defs)
qed (blast intro: block_insert_wf transaction_insert_wf delete_orphans_wf delete_invalid_txs_wf)+

lemma db_steps_wf: "db_step\<^sup>*\<^sup>* d d' \<Longrightarrow> wf_db d \<Longrightarrow> wf_db d'"
  by (induction rule: rtranclp_induct) (auto intro: db_step_wf)

definition sample_tx :: tx_def where
  "sample_tx = \<lparr>td_txid = ''t'', td_hash = ''h'', td_version = 1, td_size = 2,
     td_vsize = 2, td_weight = 8, td_locktime = ''0'', td_inputs = [], td_outputs = []\<rparr>"

text \<open>
  C5: every database the stored procedures can build from the empty one, by any sequence of block
  and transaction insertions, deletions and metadata updates, is well formed: keys are unique, at
  most one block per height is active, and no row refers to a missing row.
\<close>

theorem reachable_wf:
  assumes "db_step\<^sup>*\<^sup>* empty_db d"
  shows "wf_db d"
  using db_steps_wf [OF assms wf_db_empty] .

theorem reachable_wf_witness:
  "wf_db (snd (transaction_insert (-1) sample_tx ''00'' (-1) empty_db))"
  (is "wf_db (snd ?r)")
proof -
  have "db_step empty_db (snd ?r)"
    by (rule db_step.insert_tx [of _ _ _ _ _ "fst ?r"]) simp
  then have "db_step\<^sup>*\<^sup>* empty_db (snd ?r)" by (rule r_into_rtranclp)
  then show ?thesis by (rule reachable_wf)
qed

section \<open>Properties of single procedures\<close>

lemma update_where_id: "(\<And>r. r \<in> set rs \<Longrightarrow> P r \<Longrightarrow> f r = r) \<Longrightarrow> update_where P f rs = rs"
  unfolding update_where_def by (rule map_idI) simp

text \<open>A call whose outcome is already in the database changes nothing.\<close>

lemma transaction_insert_done:
  assumes "r \<in> set (txs d)" "t_txid r = td_txid t" "distinct (map t_txid (txs d))"
    "distinct (map t_id (txs d))" "in_i32 idx"
    "block_id \<noteq> -1 \<Longrightarrow> block_id_ok d (opt_of block_id) \<and>
       t_block_id r = opt_of block_id \<and> t_index r = opt_of idx"
  shows "transaction_insert block_id t raw idx d = (Inr (), d)"
proof -
  have only: "s = r" if "s \<in> set (txs d)" "t_txid s = td_txid t" for s
    using assms(1-3) that by (metis distinct_map inj_onD)
  have only_id: "s = r" if "s \<in> set (txs d)" "t_id s = t_id r" for s
    using assms(1,4) that by (metis distinct_map inj_onD)
  obtain r' rs where f: "filter (\<lambda>r. t_txid r = td_txid t) (txs d) = r' # rs"
    using assms(1,2) by (cases "filter (\<lambda>r. t_txid r = td_txid t) (txs d)") (auto simp: filter_empty_conv)
  have "r' \<in> set (filter (\<lambda>r. t_txid r = td_txid t) (txs d))" unfolding f by simp
  then have "r' = r" using only by simp
  note f = f [unfolded this]
  have idx: "\<not> (case opt_of idx of None \<Rightarrow> False | Some i \<Rightarrow> \<not> in_i32 i)"
    using assms(5) by (simp add: opt_of_def)
  show ?thesis
  proof (cases "block_id = -1")
    case True
    then show ?thesis
      unfolding transaction_insert_def Let_def f by (simp add: opt_of_def)
  next
    case False
    then have b: "block_id_ok d (opt_of block_id)" "opt_of block_id \<noteq> None"
      "t_block_id r = opt_of block_id" "t_index r = opt_of idx"
      using assms(6) by (auto simp: opt_of_def)
    have "update_where (\<lambda>s. t_id s = t_id r)
        (\<lambda>s. s\<lparr>t_block_id := opt_of block_id, t_index := opt_of idx\<rparr>) (txs d) = txs d"
      using b(3,4) only_id by (intro update_where_id) (metis tx_row.surjective tx_row.update_convs(2,3))
    then show ?thesis
      unfolding transaction_insert_def Let_def f list.case
      using b(1,2) idx by (simp only: simp_thms if_False) simp
  qed
qed

lemma transaction_insert_outcome:
  assumes "wf_db d" "transaction_insert block_id t raw idx d = (Inr (), d')"
  obtains r where "r \<in> set (txs d')" "t_txid r = td_txid t"
    "block_id \<noteq> -1 \<Longrightarrow> block_id_ok d' (opt_of block_id) \<and>
       t_block_id r = opt_of block_id \<and> t_index r = opt_of idx"
  using assms(2)
proof (cases rule: transaction_insert_cases)
  case failed
  then show thesis by simp
next
  case pending
  then show thesis using that by auto
next
  case (mined r)
  let ?r = "r\<lparr>t_block_id := Some block_id, t_index := opt_of idx\<rparr>"
  have "?r \<in> set (txs d')"
    unfolding mined(6) using mined(1) by (auto simp: update_where_def image_iff intro!: bexI [of _ r])
  moreover have "block_id_ok d' (opt_of block_id)"
    using mined(3,5) unfolding mined(6) by (simp add: block_id_ok_def opt_of_def)
  ultimately show thesis using that [of ?r] mined(2,3) by (simp add: opt_of_def)
next
  case (inserted lt d2)
  let ?t = "new_tx_row (tx_seq d) (opt_of idx) (opt_of block_id) t raw lt"
  obtain ni k where d2: "d2 = d\<lparr>txs := txs d @ [?t], tx_seq := tx_seq d + 1, inputs := inputs d @ ni, input_seq := k\<rparr>"
    using input_insert_grows [OF inserted(5)] by auto
  obtain no k' where d': "d' = d2\<lparr>outputs := outputs d2 @ no, output_seq := k'\<rparr>"
    using output_insert_grows [OF inserted(6)] by auto
  have m: "?t \<in> set (txs d')" "blocks d' = blocks d" unfolding d' d2 by simp_all
  have "block_id_ok d' (opt_of block_id)"
    using inserted(4) unfolding block_id_ok_def m(2) .
  then show thesis by (intro that [OF m(1)]) (simp_all add: new_tx_row_def)
qed

text \<open>Repeating a successful call changes nothing more.\<close>

lemma transaction_insert_idempotent:
  assumes "wf_db d" "in_i32 idx" "transaction_insert block_id t raw idx d = (Inr (), d')"
  shows "transaction_insert block_id t raw idx d' = (Inr (), d')"
proof -
  obtain r where r: "r \<in> set (txs d')" "t_txid r = td_txid t"
    "block_id \<noteq> -1 \<Longrightarrow> block_id_ok d' (opt_of block_id) \<and>
       t_block_id r = opt_of block_id \<and> t_index r = opt_of idx"
    using transaction_insert_outcome [OF assms(1,3)] by blast
  have "wf_txs d'" using transaction_insert_wf [OF assms(3,1)] by (simp add: wf_db_def)
  then show ?thesis
    using transaction_insert_done [OF r(1,2) _ _ assms(2) r(3)] by (simp add: wf_txs_def)
qed

end
