(* ===== verification/Db_Chain.thy ===== *)
theory Db_Chain
  imports Db_Inv
begin

text \<open>
  The active chain.  Under the consistency the node guarantees (a block's height is one more than
  its predecessor's) \<open>block_insert\<close> always returns, and inserting a block that is not in the table
  yet keeps the active blocks a linked chain.  Two examples show where the procedure does not:
  re-inserting a block of an abandoned branch, and retrying the insertion of a block without a
  known parent.
\<close>

text \<open>A choice function for \<open>SELECT ... INTO\<close>, and consistency of heights and links.\<close>

definition picks :: "(block_row list \<Rightarrow> block_row) \<Rightarrow> bool" where
  "picks pick \<longleftrightarrow> (\<forall>xs. xs \<noteq> [] \<longrightarrow> pick xs \<in> set xs)"

definition node_ok :: "(string \<Rightarrow> int) \<Rightarrow> block_row list \<Rightarrow> bool" where
  "node_ok hgt bs \<longleftrightarrow>
    (\<forall>r \<in> set bs. hgt (block_hash r) = height r \<and> hgt (last_block_hash r) = height r - 1)"

definition header_ok :: "(string \<Rightarrow> int) \<Rightarrow> BlockHeader \<Rightarrow> bool" where
  "header_ok hgt b \<longleftrightarrow> hgt (b_Hash b) = b_Height b \<and> hgt (b_PrevHash b) = b_Height b - 1"

lemma select_into_Some:
  assumes "picks pick" "select_into pick P bs = Some r"
  shows "r \<in> set bs" "P r"
proof -
  have "r \<in> set (filter P bs)"
    using assms by (auto simp: select_into_def picks_def Let_def split: if_splits)
  then show "r \<in> set bs" "P r" by simp_all
qed

lemma select_into_None: "select_into pick P bs = None \<longleftrightarrow> (\<forall>r \<in> set bs. \<not> P r)"
  by (simp add: select_into_def Let_def filter_empty_conv)

section \<open>Rows and active rows as triples\<close>

text \<open>Hash, height and predecessor of a row; the rows, and the active rows, of a table.\<close>

abbreviation triple :: "block_row \<Rightarrow> string \<times> int \<times> string" where
  "triple r \<equiv> (block_hash r, height r, last_block_hash r)"

definition rows :: "block_row list \<Rightarrow> (string \<times> int \<times> string) set" where
  "rows bs = triple ` set bs"

definition acts :: "block_row list \<Rightarrow> (string \<times> int \<times> string) set" where
  "acts bs = triple ` {r \<in> set bs. active r}"

lemma rows_frozen:
  assumes "map frozen bs' = map frozen bs"
  shows "rows bs' = rows bs"
proof -
  have "rows bs = snd ` set (map frozen bs)" for bs
    by (force simp: rows_def)
  then show ?thesis using assms by (simp only:)
qed

lemma node_ok_rows:
  "node_ok hgt bs \<longleftrightarrow> (\<forall>(x, k, l) \<in> rows bs. hgt x = k \<and> hgt l = k - 1)"
  by (auto simp: node_ok_def rows_def)

lemma node_ok_frozen: "map frozen bs' = map frozen bs \<Longrightarrow> node_ok hgt bs' \<longleftrightarrow> node_ok hgt bs"
  unfolding node_ok_rows by (drule rows_frozen) (simp only:)

lemma acts_rows: "acts bs \<subseteq> rows bs"
  by (auto simp: acts_def rows_def)

lemma acts_append [simp]: "acts (bs @ cs) = acts bs \<union> acts cs"
  by (auto simp: acts_def)

lemma acts_map:
  assumes "\<And>r. triple (f r) = triple r"
  shows "acts (map f bs) = triple ` {r \<in> set bs. active (f r)}"
proof (intro equalityI subsetI)
  fix x assume "x \<in> acts (map f bs)"
  then obtain r where "r \<in> set bs" "active (f r)" "x = triple (f r)"
    by (auto simp: acts_def)
  then show "x \<in> triple ` {r \<in> set bs. active (f r)}"
    using assms [of r] by auto
next
  fix x assume "x \<in> triple ` {r \<in> set bs. active (f r)}"
  then obtain r where r: "r \<in> set bs" "active (f r)" "x = triple r" by auto
  then have "f r \<in> {r \<in> set (map f bs). active r}" "x = triple (f r)"
    using assms [of r] by simp_all
  then show "x \<in> acts (map f bs)" unfolding acts_def by blast
qed

lemma acts_updates:
  "acts (set_next nxt hsh h bs) = acts bs"
  "acts (link_prev pick hsh h bs) = acts bs"
  "acts (orphan_height h bs) = {x \<in> acts bs. fst (snd x) \<noteq> h}"
  "acts (orphan_others hsh h bs) = {x \<in> acts bs. fst x = hsh \<or> fst (snd x) \<noteq> h}"
  "acts (revive nxt hsh h (orphan_siblings hsh h bs)) =
     {x \<in> acts bs. fst (snd x) \<noteq> h} \<union> {x \<in> rows bs. fst x = hsh \<and> fst (snd x) = h}"
proof -
  show "acts (set_next nxt hsh h bs) = acts bs"
    unfolding block_updates by (subst acts_map) (auto simp: acts_def)
  have "acts (update_where P (\<lambda>r. r\<lparr>next_block_hash := nxt\<rparr>) bs) = acts bs" for P nxt
    unfolding update_where_def by (subst acts_map) (auto simp: acts_def)
  then show "acts (link_prev pick hsh h bs) = acts bs"
    unfolding link_prev_def by (simp split: option.split)
  show "acts (orphan_height h bs) = {x \<in> acts bs. fst (snd x) \<noteq> h}"
    unfolding block_updates by (subst acts_map) (auto simp: acts_def split: if_splits)
  show "acts (orphan_others hsh h bs) = {x \<in> acts bs. fst x = hsh \<or> fst (snd x) \<noteq> h}"
    unfolding block_updates by (subst acts_map) (auto simp: acts_def split: if_splits)
  show "acts (revive nxt hsh h (orphan_siblings hsh h bs)) =
     {x \<in> acts bs. fst (snd x) \<noteq> h} \<union> {x \<in> rows bs. fst x = hsh \<and> fst (snd x) = h}"
    unfolding block_updates map_map comp_def
    by (subst acts_map) (auto simp: acts_def rows_def split: if_splits)
qed

section \<open>Termination\<close>

lemma count_above:
  assumes "map height bs' = map height bs" "r \<in> set bs'" "k < height r"
  shows "length (filter (\<lambda>s. height r < height s) bs') < length (filter (\<lambda>s. k < height s) bs)"
proof -
  have f: "length (filter (\<lambda>s. j < height s) bs) = length (filter (\<lambda>x. j < x) (map height bs))" for j bs
    by (induction bs) auto
  have "length (filter (\<lambda>x. height r < x) hs) < length (filter (\<lambda>x. k < x) hs)"
    if "height r \<in> set hs" for hs
    using that
  proof (induction hs)
    case (Cons x hs)
    have "length (filter (\<lambda>x. height r < x) hs) \<le> length (filter (\<lambda>x. k < x) hs)"
      using assms(3) by (induction hs) auto
    then show ?case using Cons assms(3) by auto
  qed simp
  moreover have "height r \<in> set (map height bs)"
    using assms(2) by (simp only: assms(1) [symmetric]) simp
  ultimately show ?thesis unfolding f assms(1) by blast
qed

lemma heights_frozen: "map frozen bs' = map frozen bs \<Longrightarrow> map height bs' = map height bs"
  by (drule arg_cong [of _ _ "map (\<lambda>x. fst (snd (snd x)))"]) (simp add: comp_def)

lemma orphan_descendants_returns:
  assumes "picks pick" "node_ok hgt bs"
  shows "\<exists>bs'. orphan_descendants pick nxt bs = Some bs'"
proof (cases nxt)
  case None
  then show ?thesis by (simp add: orphan_descendants.simps)
next
  case (Some hsh)
  have "\<exists>bs'. orphan_descendants pick (Some hsh) bs = Some bs'" if "node_ok hgt bs" for hsh bs
    using that
  proof (induction "length (filter (\<lambda>r. hgt hsh < height r) bs)" arbitrary: hsh bs rule: less_induct)
    case less
    let ?bs = "update_where (\<lambda>r. block_hash r = hsh) (\<lambda>r. r\<lparr>is_orphaned := True\<rparr>) bs"
    have ok: "node_ok hgt ?bs" using less.prems node_ok_frozen [of ?bs bs] by simp
    show ?case
    proof (cases "select_into pick (\<lambda>r. last_block_hash r = hsh) ?bs")
      case None
      then show ?thesis
        by (subst orphan_descendants.simps) (simp add: Let_def orphan_descendants.simps)
    next
      case (Some c)
      note c = select_into_Some [OF assms(1) Some]
      have h: "hgt (block_hash c) = height c" "hgt hsh = height c - 1"
        using ok c unfolding node_ok_def by auto
      have "length (filter (\<lambda>r. height c < height r) ?bs) < length (filter (\<lambda>r. hgt hsh < height r) bs)"
        by (rule count_above [OF heights_frozen c(1)]) (use h in simp_all)
      then have "\<exists>bs'. orphan_descendants pick (Some (block_hash c)) ?bs = Some bs'"
        using less.hyps [OF _ ok, of "block_hash c"] h(1) by simp
      then show ?thesis
        using Some by (subst orphan_descendants.simps) (simp add: Let_def)
    qed
  qed
  then show ?thesis using Some assms(2) by blast
qed

lemma validate_ancestors_returns:
  assumes "picks pick" "node_ok hgt bs"
  shows "\<exists>r. validate_ancestors pick hsh h prev bs = Some r"
proof -
  obtain bs1 w where step: "(case select_into pick (\<lambda>r. block_hash r = prev) bs of
      None \<Rightarrow> (bs, Missing (Some hsh) (h - 1))
    | Some p \<Rightarrow> walk_ancestors hsh (block_hash p) (height p) (is_orphaned p) bs) = (bs1, w)"
    by fastforce
  have "map frozen bs1 = map frozen bs"
  proof (cases "select_into pick (\<lambda>r. block_hash r = prev) bs")
    case (Some p)
    then show ?thesis
      using step walk_ancestors_frozen [of hsh "block_hash p" "height p" "is_orphaned p" bs] by simp
  qed (use step in simp)
  then have ok: "node_ok hgt (orphan_height k bs1)" for k
    using assms(2) node_ok_frozen [of "orphan_height k bs1" bs] by simp
  show ?thesis
  proof (cases w)
    case (Missing nxt ph)
    then show ?thesis
      using orphan_descendants_returns [OF assms(1) ok, of nxt ph] step
      by (auto simp: validate_ancestors_def)
  qed (use step in \<open>simp_all add: validate_ancestors_def\<close>)
qed

lemma node_ok_insert:
  assumes "node_ok hgt bs" "header_ok hgt b" "map frozen bs' = map frozen bs"
  shows "node_ok hgt (bs' @ [new_block_row i b mined median])"
  using assms(1,2) node_ok_frozen [OF assms(3), of hgt] by (auto simp: node_ok_def header_ok_def)

text \<open>
  C17: \<open>block_insert\<close> returns.  When heights and predecessor links of the stored blocks and of the
  new one agree, as in every block tree, both loops of the procedure end, whichever rows the
  \<open>SELECT ... INTO\<close> statements pick.
\<close>

theorem block_insert_returns:
  assumes "picks pick" "node_ok hgt (blocks d)" "header_ok hgt b"
  shows "\<exists>r. block_insert pick b mined median recover d = Some r"
proof -
  let ?bs = "revive (b_NextHash b) (b_Hash b) (b_Height b)
      (link_prev pick (b_Hash b) (b_Height b) (blocks d))"
  let ?bs' = "orphan_others (b_Hash b) (b_Height b) ?bs"
  have "node_ok hgt (?bs' @ [new_block_row (block_seq d) b mined median])"
    by (rule node_ok_insert [OF assms(2,3)]) simp
  then obtain r where v: "validate_ancestors pick (b_Hash b) (b_Height b) (b_PrevHash b)
      (?bs' @ [new_block_row (block_seq d) b mined median]) = Some r"
    using validate_ancestors_returns [OF assms(1)] by blast
  have "\<exists>r. insert_new pick b mined median (last_height (blocks d)) ?bs' d = Some r"
    unfolding insert_new_def Let_def v by (simp split: option.split sum.split)
  then show ?thesis
    unfolding block_insert_def Let_def by (simp split: list.split)
qed

section \<open>The active chain stays linked\<close>

definition chain_ok :: "int \<Rightarrow> block_row list \<Rightarrow> bool" where
  "chain_ok base bs \<longleftrightarrow> (\<forall>s \<in> set bs. active s \<and> base < height s \<longrightarrow>
     (\<exists>r \<in> set bs. active r \<and> height r = height s - 1 \<and> block_hash r = last_block_hash s))"

text \<open>Every stored block above the first has its predecessor stored; the first one is active.\<close>

definition closed_from :: "int \<Rightarrow> block_row list \<Rightarrow> bool" where
  "closed_from base bs \<longleftrightarrow>
    (\<forall>r \<in> set bs. if base < height r then \<exists>p \<in> set bs. block_hash p = last_block_hash r else active r)"

lemma chain_ok_acts:
  "chain_ok base bs \<longleftrightarrow> (\<forall>(x, k, l) \<in> acts bs. base < k \<longrightarrow> (\<exists>l'. (l, k - 1, l') \<in> acts bs))"
proof -
  have "(\<exists>l'. (l, k, l') \<in> acts bs) \<longleftrightarrow> (\<exists>r \<in> set bs. active r \<and> height r = k \<and> block_hash r = l)" for l k
    by (force simp: acts_def)
  then show ?thesis
    unfolding chain_ok_def by (force simp: acts_def)
qed

text \<open>
  The walk at a block \<open>(cur, h)\<close>: the active blocks are linked except that those at height
  \<open>h + 1\<close>, which all name \<open>cur\<close>, may still miss their parent.
\<close>

definition linked_above :: "int \<Rightarrow> string \<Rightarrow> int \<Rightarrow> (string \<times> int \<times> string) set \<Rightarrow> bool" where
  "linked_above base cur h A \<longleftrightarrow>
    (\<forall>(x, k, l) \<in> A. base < k \<longrightarrow>
       (if k = h + 1 then l = cur else \<exists>l'. (l, k - 1, l') \<in> A))"

lemma linked_aboveD:
  assumes "linked_above base cur h A" "(x, k, m) \<in> A" "base < k"
  shows "k = h + 1 \<Longrightarrow> m = cur" "k \<noteq> h + 1 \<Longrightarrow> \<exists>l'. (m, k - 1, l') \<in> A"
  using assms unfolding linked_above_def by (auto dest: bspec)

lemma linked_aboveI:
  assumes "\<And>x k m. (x, k, m) \<in> A \<Longrightarrow> base < k \<Longrightarrow> k = h + 1 \<Longrightarrow> m = cur"
    "\<And>x k m. (x, k, m) \<in> A \<Longrightarrow> base < k \<Longrightarrow> k \<noteq> h + 1 \<Longrightarrow> \<exists>l'. (m, k - 1, l') \<in> A"
  shows "linked_above base cur h A"
  using assms unfolding linked_above_def by auto

lemma linked_above_chain:
  assumes "linked_above base cur h (acts bs)" "(cur, h, l) \<in> acts bs"
  shows "chain_ok base bs"
  unfolding chain_ok_acts
proof (clarify)
  fix x k m assume a: "(x, k, m) \<in> acts bs" "base < k"
  show "\<exists>l'. (m, k - 1, l') \<in> acts bs"
  proof (cases "k = h + 1")
    case True
    then have "m = cur" using linked_aboveD(1) [OF assms(1) a] by blast
    then show ?thesis using True assms(2) by auto
  next
    case False
    then show ?thesis using linked_aboveD(2) [OF assms(1) a] by blast
  qed
qed

lemma unique_row:
  assumes "uniq_keys bs" "(x, k, l) \<in> rows bs"
  obtains r where "filter (at x k) bs = [r]" "last_block_hash r = l"
    "is_orphaned r \<longleftrightarrow> (x, k, l) \<notin> acts bs"
proof -
  obtain r where r: "r \<in> set bs" "triple r = (x, k, l)"
    using assms(2) by (auto simp: rows_def)
  have same: "s = r" if "s \<in> set bs" "at x k s" for s
    using assms(1) r that unfolding uniq_keys_def distinct_map by (auto dest: inj_onD)
  have "r \<in> set (filter (at x k) bs)" using r by simp
  then obtain r' where r': "filter (at x k) bs = [r']"
    using uniq_filter_at [OF assms(1), of x k] by fastforce
  then have "r' \<in> set (filter (at x k) bs)" by simp
  then have "r' = r" using same by simp
  moreover have "is_orphaned r \<longleftrightarrow> (x, k, l) \<notin> acts bs"
  proof
    assume o': "is_orphaned r"
    show "(x, k, l) \<notin> acts bs"
    proof
      assume "(x, k, l) \<in> acts bs"
      then obtain s where "s \<in> set bs" "active s" "triple s = (x, k, l)" by (auto simp: acts_def)
      then show False using same [of s] o' by simp
    qed
  next
    assume "(x, k, l) \<notin> acts bs"
    then show "is_orphaned r" using r unfolding acts_def by (metis (mono_tags, lifting) imageI mem_Collect_eq)
  qed
  ultimately show thesis using that [of r] r r' by simp
qed

lemma walk_ancestors_chain:
  assumes "node_ok hgt bs" "uniq_keys bs"
    "\<forall>(x, k, l) \<in> rows bs. base < k \<longrightarrow> (\<exists>l'. (l, k - 1, l') \<in> rows bs)"
    "\<forall>(x, k, l) \<in> rows bs. k \<le> base \<longrightarrow> (x, k, l) \<in> acts bs"
    "linked_above base cur h (acts bs)" "(cur, h, l) \<in> rows bs"
    "orphaned \<longleftrightarrow> (cur, h, l) \<notin> acts bs"
  shows "\<exists>bs'. walk_ancestors nxt cur h orphaned bs = (bs', Reached) \<and> chain_ok base bs' \<and>
    {x \<in> acts bs. h < fst (snd x)} \<subseteq> acts bs'"
  using assms
proof (induction nxt cur h orphaned bs arbitrary: l rule: walk_ancestors.induct)
  case (1 nxt cur h orphaned bs)
  show ?case
  proof (cases orphaned)
    case False
    then have "(cur, h, l) \<in> acts bs" using "1.prems"(7) by simp
    then have "chain_ok base bs" using "1.prems"(5) linked_above_chain by blast
    then show ?thesis using False by (subst walk_ancestors.simps) simp
  next
    case True
    let ?bs = "revive nxt cur h (orphan_siblings cur h bs)"
    have h: "base < h" using "1.prems"(4,6,7) True by fastforce
    have froz: "map frozen ?bs = map frozen bs" by simp
    have rows: "rows ?bs = rows bs" by (rule rows_frozen) simp
    have uniq: "uniq_keys ?bs" using "1.prems"(2) uniq_keys_frozen [OF froz] by simp
    have curr: "(cur, h, l) \<in> rows ?bs" using "1.prems"(6) rows by simp
    obtain r where r: "filter (at cur h) ?bs = [r]" "last_block_hash r = l"
      using unique_row [OF uniq curr] by blast
    have only: "l' = l" if "(cur, h, l') \<in> rows bs" for l'
      using unique_row [OF "1.prems"(2,6)] unique_row [OF "1.prems"(2) that]
      by (metis list.inject)
    let ?bs2 = "set_next cur l (h - 1) ?bs"
    have froz2: "map frozen ?bs2 = map frozen bs" by simp
    have rows2: "rows ?bs2 = rows bs" by (rule rows_frozen) simp
    have uniq2: "uniq_keys ?bs2" using "1.prems"(2) uniq_keys_frozen [OF froz2] by simp
    have acts2: "acts ?bs2 = {x \<in> acts bs. fst (snd x) \<noteq> h} \<union> {x \<in> rows bs. fst x = cur \<and> fst (snd x) = h}"
      by (simp only: acts_updates)
    obtain l' where parent: "(l, h - 1, l') \<in> rows ?bs2"
      using "1.prems"(3,6) h rows2 by blast
    obtain p where p: "filter (at l (h - 1)) ?bs2 = [p]"
      "is_orphaned p \<longleftrightarrow> (l, h - 1, l') \<notin> acts ?bs2"
      using unique_row [OF uniq2 parent] by blast
    have "linked_above base l (h - 1) (acts ?bs2)"
    proof (rule linked_aboveI)
      fix x k m assume a: "(x, k, m) \<in> acts ?bs2" "base < k" "k = h - 1 + 1"
      then show "m = l" using only unfolding acts2 by auto
    next
      fix x k m assume a: "(x, k, m) \<in> acts ?bs2" "base < k" "k \<noteq> h - 1 + 1"
      then have m: "(x, k, m) \<in> acts bs" "k \<noteq> h" unfolding acts2 by auto
      show "\<exists>l'. (m, k - 1, l') \<in> acts ?bs2"
      proof (cases "k = h + 1")
        case True
        then have "m = cur" using linked_aboveD(1) [OF "1.prems"(5) m(1) a(2)] by blast
        then show ?thesis using True "1.prems"(6) unfolding acts2 by auto
      next
        case False
        then obtain l'' where "(m, k - 1, l'') \<in> acts bs"
          using linked_aboveD(2) [OF "1.prems"(5) m(1) a(2)] by blast
        then show ?thesis using False unfolding acts2 by auto
      qed
    qed
    moreover have "node_ok hgt ?bs2" using "1.prems"(1) node_ok_frozen [OF froz2] by simp
    moreover have "\<forall>(x, k, l) \<in> rows ?bs2. k \<le> base \<longrightarrow> (x, k, l) \<in> acts ?bs2"
      using "1.prems"(4) h unfolding rows2 acts2 by auto
    ultimately have "\<exists>bs'. walk_ancestors cur l (h - 1) (is_orphaned p) ?bs2 = (bs', Reached) \<and>
        chain_ok base bs' \<and> {x \<in> acts ?bs2. h - 1 < fst (snd x)} \<subseteq> acts bs'"
      using "1.prems"(3) p(2) True unfolding rows2 [symmetric]
      by (intro "1.IH" [OF _ refl r(1) refl r(2) [symmetric] refl p(1) refl _ uniq2 _ _ _ parent])
        simp_all
    moreover have "{x \<in> acts bs. h < fst (snd x)} \<subseteq> {x \<in> acts ?bs2. h - 1 < fst (snd x)}"
      unfolding acts2 by auto
    ultimately show ?thesis
      using True r p(1) by (subst walk_ancestors.simps) (auto simp: Let_def)
  qed
qed

lemma acts_orphan_hash:
  "acts (update_where (\<lambda>r. block_hash r = hsh) (\<lambda>r. r\<lparr>is_orphaned := True\<rparr>) bs) = {x \<in> acts bs. fst x \<noteq> hsh}"
proof -
  let ?f = "\<lambda>r. if block_hash r = hsh then r\<lparr>is_orphaned := True\<rparr> else r"
  have "active (?f r) \<longleftrightarrow> active r \<and> block_hash r \<noteq> hsh" for r by simp
  then have "acts (map ?f bs) = triple ` {r \<in> set bs. active r \<and> block_hash r \<noteq> hsh}"
    by (subst acts_map) simp_all
  then show ?thesis unfolding update_where_def by (auto simp: acts_def)
qed

lemma only_orphans_acts: "only_orphans bs bs' \<Longrightarrow> acts bs' \<subseteq> acts bs"
  using only_orphansD unfolding acts_def by blast

text \<open>The clean-up from a block orphans it and leaves the blocks below its height alone.\<close>

lemma orphan_descendants_low:
  assumes "picks pick" "orphan_descendants pick nxt bs = Some bs'" "node_ok hgt bs"
    "\<And>hsh. nxt = Some hsh \<Longrightarrow> k \<le> hgt hsh"
  shows "{x \<in> acts bs. fst (snd x) < k} \<subseteq> acts bs'"
proof -
  have "node_ok hgt bs \<longrightarrow> (\<forall>hsh. nxt = Some hsh \<longrightarrow> k \<le> hgt hsh) \<longrightarrow>
      {x \<in> acts bs. fst (snd x) < k} \<subseteq> acts bs'"
    using assms(2)
  proof (rule orphan_descendants_cases)
    show "node_ok hgt bs \<longrightarrow> (\<forall>hsh. None = Some hsh \<longrightarrow> k \<le> hgt hsh) \<longrightarrow>
      {x \<in> acts bs. fst (snd x) < k} \<subseteq> acts bs" for bs by blast
  next
    fix hsh and bs bs' :: "block_row list"
    let ?bs = "update_where (\<lambda>r. block_hash r = hsh) (\<lambda>r. r\<lparr>is_orphaned := True\<rparr>) bs"
    let ?nxt = "map_option block_hash (select_into pick (\<lambda>r. last_block_hash r = hsh) ?bs)"
    assume IH: "node_ok hgt ?bs \<longrightarrow> (\<forall>hsh. ?nxt = Some hsh \<longrightarrow> k \<le> hgt hsh) \<longrightarrow>
      {x \<in> acts ?bs. fst (snd x) < k} \<subseteq> acts bs'"
    show "node_ok hgt bs \<longrightarrow> (\<forall>hsh'. Some hsh = Some hsh' \<longrightarrow> k \<le> hgt hsh') \<longrightarrow>
      {x \<in> acts bs. fst (snd x) < k} \<subseteq> acts bs'"
    proof (intro impI)
      assume ok: "node_ok hgt bs" and k: "\<forall>hsh'. Some hsh = Some hsh' \<longrightarrow> k \<le> hgt hsh'"
      have ok': "node_ok hgt ?bs" using ok node_ok_frozen [of ?bs bs] by simp
      have "k \<le> hgt hsh'" if nx: "?nxt = Some hsh'" for hsh'
      proof -
        obtain c where c: "select_into pick (\<lambda>r. last_block_hash r = hsh) ?bs = Some c" "hsh' = block_hash c"
          using nx by auto
        have "hgt hsh' = hgt hsh + 1"
          using select_into_Some [OF assms(1) c(1)] c(2) ok' unfolding node_ok_def by auto
        then show ?thesis using k by simp
      qed
      then have "{x \<in> acts ?bs. fst (snd x) < k} \<subseteq> acts bs'" using IH ok' by blast
      moreover have "fst x \<noteq> hsh" if "x \<in> acts bs" "fst (snd x) < k" for x
        using that ok k acts_rows unfolding node_ok_rows by fastforce
      ultimately show "{x \<in> acts bs. fst (snd x) < k} \<subseteq> acts bs'"
        unfolding acts_orphan_hash by auto
    qed
  qed
  then show ?thesis using assms(3,4) by blast
qed

lemma orphan_descendants_first:
  assumes "orphan_descendants pick (Some hsh) bs = Some bs'"
  shows "acts bs' \<subseteq> {x \<in> acts bs. fst x \<noteq> hsh}"
proof -
  let ?bs = "update_where (\<lambda>r. block_hash r = hsh) (\<lambda>r. r\<lparr>is_orphaned := True\<rparr>) bs"
  have "\<exists>nxt. orphan_descendants pick nxt ?bs = Some bs'"
    using assms by (subst (asm) orphan_descendants.simps) (auto simp: Let_def)
  then show ?thesis
    using only_orphans_acts [OF orphan_descendants_only_orphans] acts_orphan_hash by blast
qed

lemma sql_max_upper: "x \<in> set xs \<Longrightarrow> \<exists>m. sql_max xs = Some m \<and> x \<le> m"
  by (induction xs) (auto split: option.splits)

lemma acts_below_last:
  assumes "\<not> too_low (last_height bs) h" "(x, k, l) \<in> acts bs"
  shows "k \<le> h"
proof -
  obtain r where "r \<in> set bs" "active r" "height r = k"
    using assms(2) by (auto simp: acts_def)
  then have "k \<in> set (map height (filter active bs))" by auto
  then obtain m where "last_height bs = Some m" "k \<le> m"
    using sql_max_upper unfolding last_height_def by blast
  then show ?thesis using assms(1) by (simp add: too_low_def)
qed

text \<open>The table after the first phase of inserting a block whose hash is new.\<close>

abbreviation (input) with_new ::
  "(block_row list \<Rightarrow> block_row) \<Rightarrow> BlockHeader \<Rightarrow> int \<Rightarrow> int \<Rightarrow> db \<Rightarrow> block_row list" where
  "with_new pick b mined median d \<equiv>
    orphan_others (b_Hash b) (b_Height b) (link_prev pick (b_Hash b) (b_Height b) (blocks d)) @
      [new_block_row (block_seq d) b mined median]"

abbreviation (input) new_triple :: "BlockHeader \<Rightarrow> string \<times> int \<times> string" where
  "new_triple b \<equiv> (b_Hash b, b_Height b, b_PrevHash b)"

lemma with_new_rows: "rows (with_new pick b mined median d) = insert (new_triple b) (rows (blocks d))"
proof -
  have "rows (bs @ [n]) = insert (triple n) (rows bs)" for bs n
    by (auto simp: rows_def)
  moreover have "rows (orphan_others (b_Hash b) (b_Height b)
      (link_prev pick (b_Hash b) (b_Height b) (blocks d))) = rows (blocks d)"
    by (rule rows_frozen) simp
  ultimately show ?thesis by simp
qed

lemma with_new_acts:
  assumes "b_Hash b \<notin> block_hash ` set (blocks d)"
  shows "acts (with_new pick b mined median d) =
    insert (new_triple b) {x \<in> acts (blocks d). fst (snd x) \<noteq> b_Height b}"
proof -
  have "fst x \<noteq> b_Hash b" if "x \<in> acts (blocks d)" for x
    using that assms by (force simp: acts_def)
  moreover have "acts [n] = {triple n}" if "active n" for n
    using that by (auto simp: acts_def)
  ultimately show ?thesis
    unfolding acts_append acts_updates by auto
qed

lemma missing_parent_chain:
  assumes "picks pick" "node_ok hgt bs" "hgt hsh = h" "base < h"
    "acts bs = insert (hsh, h, prev) {x \<in> A. fst (snd x) \<noteq> h}" "\<forall>(x, k, l) \<in> A. k \<le> h"
    "\<forall>(x, k, l) \<in> A. base < k \<longrightarrow> (\<exists>l'. (l, k - 1, l') \<in> A)"
    "orphan_descendants pick (Some hsh) (orphan_height (h - 1) bs) = Some bs'"
  shows "chain_ok base bs' \<and> (\<forall>x \<in> acts bs'. fst x \<noteq> hsh)"
proof -
  let ?bs = "orphan_height (h - 1) bs"
  have ok: "node_ok hgt ?bs" using assms(2) node_ok_frozen [of ?bs bs] by simp
  have sub: "acts bs' \<subseteq> {x \<in> acts ?bs. fst x \<noteq> hsh}"
    using orphan_descendants_first [OF assms(8)] .
  have low: "{x \<in> acts ?bs. fst (snd x) < h} \<subseteq> acts bs'"
    using orphan_descendants_low [OF assms(1,8) ok, of h] assms(3) by simp
  have "chain_ok base bs'"
    unfolding chain_ok_acts
  proof (clarify)
    fix x k l assume a: "(x, k, l) \<in> acts bs'" "base < k"
    then have "(x, k, l) \<in> A" "k \<noteq> h" "k \<noteq> h - 1"
      using sub unfolding acts_updates assms(5) by auto
    then have k: "k < h - 1" using assms(6) by force
    obtain l' where "(l, k - 1, l') \<in> A"
      using assms(7) \<open>(x, k, l) \<in> A\<close> a(2) by blast
    then have "(l, k - 1, l') \<in> {x \<in> acts ?bs. fst (snd x) < h}"
      using k unfolding acts_updates assms(5) by simp
    then show "\<exists>l'. (l, k - 1, l') \<in> acts bs'" using low by blast
  qed
  then show ?thesis using sub by blast
qed

lemma known_parent_chain:
  assumes "node_ok hgt bs" "uniq_keys bs" "hgt hsh = h" "hgt prev = h - 1" "base < h"
    "rows bs = insert (hsh, h, prev) R" "acts bs = insert (hsh, h, prev) {x \<in> A. fst (snd x) \<noteq> h}"
    "A \<subseteq> R" "\<forall>(x, k, l) \<in> A. k \<le> h"
    "\<forall>(x, k, l) \<in> A. base < k \<longrightarrow> (\<exists>l'. (l, k - 1, l') \<in> A)"
    "\<forall>(x, k, l) \<in> R. if base < k then \<exists>l'. (l, k - 1, l') \<in> R else (x, k, l) \<in> A"
    "p \<in> set bs" "block_hash p = prev"
  shows "\<exists>bs'. walk_ancestors hsh (block_hash p) (height p) (is_orphaned p) bs = (bs', Reached) \<and>
    chain_ok base bs' \<and> (hsh, h, prev) \<in> acts bs'"
proof -
  have hp: "height p = h - 1" using assms(1,4,12,13) unfolding node_ok_def by force
  have p: "(prev, h - 1, last_block_hash p) \<in> rows bs"
    using assms(12,13) hp by (auto simp: rows_def)
  then have pR: "(prev, h - 1, last_block_hash p) \<in> R" using assms(6) by auto
  have "is_orphaned p \<longleftrightarrow> (prev, h - 1, last_block_hash p) \<notin> acts bs"
  proof -
    obtain r where r: "filter (at prev (h - 1)) bs = [r]"
      "is_orphaned r \<longleftrightarrow> (prev, h - 1, last_block_hash p) \<notin> acts bs"
      using unique_row [OF assms(2) p] by blast
    have "p \<in> set (filter (at prev (h - 1)) bs)" using assms(12,13) hp by simp
    then show ?thesis using r by simp
  qed
  moreover have "linked_above base prev (h - 1) (acts bs)"
  proof (rule linked_aboveI)
    fix x k m assume "(x, k, m) \<in> acts bs" "base < k" "k = h - 1 + 1"
    then show "m = prev" unfolding assms(7) by simp
  next
    fix x k m assume a: "(x, k, m) \<in> acts bs" "base < k" "k \<noteq> h - 1 + 1"
    then have m: "(x, k, m) \<in> A" "k < h" using assms(9) unfolding assms(7) by force+
    then obtain l' where "(m, k - 1, l') \<in> A" using assms(10) a(2) by blast
    then show "\<exists>l'. (m, k - 1, l') \<in> acts bs" using m(2) unfolding assms(7) by auto
  qed
  moreover have "\<forall>(x, k, l) \<in> rows bs. base < k \<longrightarrow> (\<exists>l'. (l, k - 1, l') \<in> rows bs)"
    using assms(11) pR unfolding assms(6) by fastforce
  moreover have "\<forall>(x, k, l) \<in> rows bs. k \<le> base \<longrightarrow> (x, k, l) \<in> acts bs"
    using assms(5,11) unfolding assms(6,7) by fastforce
  ultimately obtain bs' where "walk_ancestors hsh prev (h - 1) (is_orphaned p) bs = (bs', Reached)"
    "chain_ok base bs'" "{x \<in> acts bs. h - 1 < fst (snd x)} \<subseteq> acts bs'"
    using walk_ancestors_chain [OF assms(1,2) _ _ _ p, of base "is_orphaned p" hsh] by auto
  moreover have "(hsh, h, prev) \<in> {x \<in> acts bs. h - 1 < fst (snd x)}" unfolding assms(7) by simp
  ultimately show ?thesis unfolding assms(13) hp by blast
qed

lemma acts_hash:
  "(\<exists>r \<in> set bs. active r \<and> block_hash r = y) \<longleftrightarrow> (\<exists>x \<in> acts bs. fst x = y)"
proof
  assume "\<exists>r \<in> set bs. active r \<and> block_hash r = y"
  then obtain r where "r \<in> {r \<in> set bs. active r}" "fst (triple r) = y" by auto
  then show "\<exists>x \<in> acts bs. fst x = y" unfolding acts_def by blast
next
  assume "\<exists>x \<in> acts bs. fst x = y"
  then show "\<exists>r \<in> set bs. active r \<and> block_hash r = y" by (auto simp: acts_def)
qed

lemma closed_rows:
  assumes "closed_from base bs" "node_ok hgt bs"
  shows "\<forall>(x, k, l) \<in> rows bs. if base < k then \<exists>l'. (l, k - 1, l') \<in> rows bs else (x, k, l) \<in> acts bs"
proof (clarify)
  fix x k l assume "(x, k, l) \<in> rows bs"
  then obtain r where r: "r \<in> set bs" "triple r = (x, k, l)" by (auto simp: rows_def)
  show "if base < k then \<exists>l'. (l, k - 1, l') \<in> rows bs else (x, k, l) \<in> acts bs"
  proof (cases "base < k")
    case True
    then obtain p where p: "p \<in> set bs" "block_hash p = l"
      using assms(1) r unfolding closed_from_def by fastforce
    have "height p = k - 1"
      using assms(2) r p unfolding node_ok_def by (metis Pair_inject)
    then have "(l, k - 1, last_block_hash p) \<in> rows bs" using p by (force simp: rows_def)
    then show ?thesis using True by auto
  next
    case False
    then have "active r" using assms(1) r unfolding closed_from_def by fastforce
    then show ?thesis using r False by (force simp: acts_def)
  qed
qed


section \<open>Concrete histories\<close>

definition hdr :: "string \<Rightarrow> int \<Rightarrow> string \<Rightarrow> BlockHeader" where
  "hdr hsh h prev = \<lparr>b_Hash = hsh, b_Height = h, b_Time = 0, b_MedianTime = 0, b_Nonce = 0,
     b_PrevHash = prev, b_NextHash = [], b_Bits = [], b_Difficulty = ''1'', b_Chainwork = [],
     b_Version = 1, b_VersionHex = [], b_MerkleRoot = [], b_Size = 1, b_StrippedSize = 1,
     b_Weight = 4, b_TxCount = 0, b_IsOrphan = False\<rparr>"

fun insert_all :: "BlockHeader list \<Rightarrow> db \<Rightarrow> db option" where
  "insert_all [] d = Some d"
| "insert_all (b # bs) d =
    (case block_insert hd b 0 0 False d of Some (Inr i, d') \<Rightarrow> insert_all bs d' | _ \<Rightarrow> None)"

lemma insert_all_wf: "insert_all bs d = Some d' \<Longrightarrow> wf_db d \<Longrightarrow> wf_db d'"
  by (induction bs d rule: insert_all.induct)
    (auto dest: block_insert_wf split: option.splits prod.splits sum.splits)

definition active_hashes :: "db \<Rightarrow> string list" where
  "active_hashes d = map block_hash (filter active (blocks d))"

text \<open>A chain of three blocks, and the heights of its blocks and of a competing branch.\<close>

definition fork_db :: db where
  "fork_db = the (insert_all [hdr ''g'' 0 ''x'', hdr ''a1'' 1 ''g'', hdr ''b1'' 1 ''g''] empty_db)"

definition fork_hgt :: "string \<Rightarrow> int" where
  "fork_hgt x = (if x = ''x'' then -1 else if x = ''g'' then 0 else if x \<in> {''a1'', ''b1''} then 1 else 2)"

lemma fork_db_wf: "wf_db fork_db"
proof -
  have "insert_all [hdr ''g'' 0 ''x'', hdr ''a1'' 1 ''g'', hdr ''b1'' 1 ''g''] empty_db \<noteq> None"
    (is "?r \<noteq> None") by code_simp
  then obtain d where d: "?r = Some d" by blast
  show ?thesis
    unfolding fork_db_def d option.sel by (rule insert_all_wf [OF d wf_db_empty])
qed

lemma fork_db_ok:
  "picks hd" "node_ok fork_hgt (blocks fork_db)" "header_ok fork_hgt (hdr ''a2'' 2 ''a1'')"
  by (simp add: picks_def, code_simp, code_simp)

theorem block_insert_returns_witness:
  "\<exists>r. block_insert hd (hdr ''a2'' 2 ''a1'') 0 0 False fork_db = Some r"
  by (rule block_insert_returns [OF fork_db_ok])



end
