(* ===== verification/Convert.thy ===== *)
theory Convert
  imports Complex_Main GoStrings
begin

text \<open>
  \<open>V2/internal/convert\<close>: amounts and timestamps.  A Go \<open>float64\<close> is modelled by the rational it
  denotes, with every operation rounded to a 53 bit significand, ties to even; the values that
  occur lie far from the limits of the exponent, so overflow and subnormals do not arise.
\<close>

section \<open>IEEE 754 double precision\<close>

definition round_half_even :: "rat \<Rightarrow> int" where
  "round_half_even x =
    (let f = \<lfloor>x\<rfloor>; d = x - of_int f in
     if d < 1 / 2 then f else if d > 1 / 2 then f + 1 else if even f then f else f + 1)"

fun bit_len :: "nat \<Rightarrow> nat" where
  "bit_len n = (if n = 0 then 0 else Suc (bit_len (n div 2)))"

declare bit_len.simps [simp del]

text \<open>The exponent of a positive rational: the integer \<open>e\<close> with \<open>2\<^sup>e \<le> x < 2\<^sup>e\<^sup>+\<^sup>1\<close>.\<close>

definition ilog2 :: "rat \<Rightarrow> int" where
  "ilog2 x =
    (let (a, b) = quotient_of x; e = int (bit_len (nat a)) - int (bit_len (nat b)) in
     if 2 powi e \<le> x then e else e - 1)"

definition rnd53 :: "rat \<Rightarrow> rat" where
  "rnd53 x =
    (if x = 0 then 0
     else let e = ilog2 \<bar>x\<bar> - 52 in of_int (round_half_even (x / 2 powi e)) * 2 powi e)"

text \<open>\<open>fmt.Sprintf("%.8f", x)\<close>: the exact value rounded to eight decimals, ties to even.\<close>

definition pad_left :: "nat \<Rightarrow> string \<Rightarrow> string" where
  "pad_left k s = replicate (k - length s) CHR ''0'' @ s"

definition Sprintf_8f :: "rat \<Rightarrow> string" where
  "Sprintf_8f x =
    (let n = nat \<bar>round_half_even (x * 10 ^ 8)\<bar> in
     (if x < 0 then ''-'' else []) @ digits (n div 10 ^ 8) @ ''.'' @
       pad_left 8 (digits (n mod 10 ^ 8)))"

section \<open>The conversions\<close>

definition UtxoPrecision :: int where
  "UtxoPrecision = 8"

text \<open>A Go slice or index expression out of range panics; \<open>s[1]\<close> is read only when it exists.\<close>

definition ToSatoshi :: "string \<Rightarrow> int result" where
  "ToSatoshi btc =
    (let s = Split btc CHR ''.'';
         b = Replace1 btc ''.'' []
     in rbind
          (if length s = 1 then Repeat ''0'' UtxoPrecision
           else Repeat ''0'' (UtxoPrecision - int (length (s ! 1))))
          (\<lambda>zeros.
            case ParseInt (b @ zeros) of
              (sats, None) \<Rightarrow> Inr sats
            | (_, Some e) \<Rightarrow>
                Inl (Err (ErrWrap ''failed to convert btc value into sats (int64)''
                  (ErrNew (case e of ErrSyntax \<Rightarrow> ''invalid syntax''
                           | ErrRange \<Rightarrow> ''value out of range''))))))"

definition ToBTC :: "int \<Rightarrow> rat" where
  "ToBTC sats = rnd53 (rnd53 (of_int sats) / 10 ^ 8)"

subsection \<open>Timestamps\<close>

text \<open>
  \<open>time.Parse(time.RFC3339, t)\<close> followed by \<open>Unix()\<close>.  The hour may have one digit, as Go's
  parser accepts; a fraction of a second is read and does not change the result.
\<close>

definition leap :: "int \<Rightarrow> bool" where
  "leap y \<longleftrightarrow> y mod 4 = 0 \<and> (y mod 100 \<noteq> 0 \<or> y mod 400 = 0)"

definition days_in_month :: "int \<Rightarrow> int \<Rightarrow> int" where
  "days_in_month y mth =
    (if mth = 2 then (if leap y then 29 else 28) else if mth \<in> {4, 6, 9, 11} then 30 else 31)"

definition days_before_year :: "int \<Rightarrow> int" where
  "days_before_year y = 365 * (y - 1) + (y - 1) div 4 - (y - 1) div 100 + (y - 1) div 400"

definition days_before_month :: "int \<Rightarrow> int \<Rightarrow> int" where
  "days_before_month y mth = (\<Sum>k \<leftarrow> [1..mth - 1]. days_in_month y k)"

definition unix_day :: "int \<Rightarrow> int \<Rightarrow> int \<Rightarrow> int" where
  "unix_day y mth d = days_before_year y + days_before_month y mth + d - 1 - 719162"

definition take_num :: "nat \<Rightarrow> string \<Rightarrow> (int \<times> string) option" where
  "take_num k s =
    (if length s \<ge> k \<and> all_digits (take k s) then Some (int (dec_val 0 (take k s)), drop k s)
     else None)"

definition take_chr :: "char \<Rightarrow> string \<Rightarrow> string option" where
  "take_chr c s = (case s of [] \<Rightarrow> None | x # xs \<Rightarrow> if x = c then Some xs else None)"

definition take_hour :: "string \<Rightarrow> (int \<times> string) option" where
  "take_hour s = (case take_num 2 s of None \<Rightarrow> take_num 1 s | r \<Rightarrow> r)"

definition skip_fraction :: "string \<Rightarrow> string" where
  "skip_fraction s =
    (case s of
       c # d # _ \<Rightarrow> if c = CHR ''.'' \<and> digit_val d \<noteq> None
                    then dropWhile (\<lambda>c. digit_val c \<noteq> None) (tl s) else s
     | _ \<Rightarrow> s)"

definition take_zone :: "string \<Rightarrow> int option" where
  "take_zone s =
    (if s = ''Z'' then Some 0
     else case s of [] \<Rightarrow> None | c # t \<Rightarrow>
       if c \<noteq> CHR ''+'' \<and> c \<noteq> CHR ''-'' then None
       else Option.bind (take_num 2 t) (\<lambda>(hh, t).
            Option.bind (take_chr CHR '':'' t) (\<lambda>t.
            Option.bind (take_num 2 t) (\<lambda>(mm, t).
              if t \<noteq> [] then None
              else Some ((if c = CHR ''-'' then -1 else 1) * (hh * 3600 + mm * 60))))))"

definition parse_RFC3339 :: "string \<Rightarrow> int option" where
  "parse_RFC3339 t =
    Option.bind (take_num 4 t) (\<lambda>(y, t). Option.bind (take_chr CHR ''-'' t) (\<lambda>t.
    Option.bind (take_num 2 t) (\<lambda>(mth, t). Option.bind (take_chr CHR ''-'' t) (\<lambda>t.
    Option.bind (take_num 2 t) (\<lambda>(d, t). Option.bind (take_chr CHR ''T'' t) (\<lambda>t.
    Option.bind (take_hour t) (\<lambda>(hh, t). Option.bind (take_chr CHR '':'' t) (\<lambda>t.
    Option.bind (take_num 2 t) (\<lambda>(mi, t). Option.bind (take_chr CHR '':'' t) (\<lambda>t.
    Option.bind (take_num 2 t) (\<lambda>(ss, t). Option.bind (take_zone (skip_fraction t)) (\<lambda>off.
      if mth < 1 \<or> 12 < mth \<or> d < 1 \<or> days_in_month y mth < d \<or> 24 \<le> hh \<or> 60 \<le> mi \<or> 60 \<le> ss
      then None
      else Some (unix_day y mth d * 86400 + hh * 3600 + mi * 60 + ss - off)))))))))))))"

definition ToUnixTimestamp :: "string \<Rightarrow> int result" where
  "ToUnixTimestamp t =
    (case parse_RFC3339 t of
       None \<Rightarrow> Inl (Err (ErrNew ''parsing time''))
     | Some ts \<Rightarrow> Inr ts)"

section \<open>Rounding\<close>

lemma round_half_even_unique:
  assumes "\<bar>x - of_int n\<bar> < 1 / 2"
  shows "round_half_even x = n"
proof (cases "of_int n \<le> x")
  case True
  then have "\<lfloor>x\<rfloor> = n" using assms by (intro floor_unique) auto
  then show ?thesis using assms True by (simp add: round_half_even_def Let_def)
next
  case False
  then have "\<lfloor>x\<rfloor> = n - 1" using assms by (intro floor_unique) auto
  then show ?thesis using assms False by (simp add: round_half_even_def Let_def)
qed

lemma round_half_even_of_int [simp]: "round_half_even (of_int n) = n"
  by (rule round_half_even_unique) simp

lemma round_half_even_error: "\<bar>of_int (round_half_even x) - x\<bar> \<le> 1 / 2"
proof -
  define d where "d = x - of_int \<lfloor>x\<rfloor>"
  have "0 \<le> d" "d < 1" "x = of_int \<lfloor>x\<rfloor> + d"
    unfolding d_def by linarith+
  then show ?thesis
    unfolding round_half_even_def Let_def d_def [symmetric] by (auto simp: abs_if)
qed

lemma bit_len_bounds: "0 < n \<Longrightarrow> 2 ^ (bit_len n - 1) \<le> n \<and> n < 2 ^ bit_len n \<and> 0 < bit_len n"
proof (induction n rule: bit_len.induct)
  case (1 n)
  show ?case
  proof (cases "n div 2 = 0")
    case True
    then have "n = 1" using "1.prems" by linarith
    then show ?thesis by (simp add: bit_len.simps)
  next
    case False
    with 1 have "2 ^ (bit_len (n div 2) - 1) \<le> n div 2" "n div 2 < 2 ^ bit_len (n div 2)"
      "0 < bit_len (n div 2)" by auto
    moreover obtain k where "bit_len (n div 2) = Suc k"
      using calculation(3) by (cases "bit_len (n div 2)") auto
    ultimately show ?thesis
      using "1.prems" by (subst (1 2 3) bit_len.simps) auto
  qed
qed

lemma ilog2_bounds:
  assumes "0 < x"
  shows "2 powi ilog2 x \<le> x" "x < 2 powi (ilog2 x + 1)"
proof -
  obtain a b where q: "quotient_of x = (a, b)" by (cases "quotient_of x")
  have b: "0 < b" using quotient_of_denom_pos [OF q] .
  have x: "x = of_int a / of_int b" using quotient_of_div [OF q] .
  have a: "0 < a" using assms b x by (simp add: zero_less_divide_iff)
  define m n where "m = bit_len (nat a)" and "n = bit_len (nat b)"
  have A: "2 ^ (m - 1) \<le> nat a" "nat a < 2 ^ m" "0 < m"
    using bit_len_bounds [of "nat a"] a by (auto simp: m_def)
  have B: "2 ^ (n - 1) \<le> nat b" "nat b < 2 ^ n" "0 < n"
    using bit_len_bounds [of "nat b"] b by (auto simp: n_def)
  have ra: "of_int a = (of_nat (nat a) :: rat)" "of_int b = (of_nat (nat b) :: rat)"
    using a b by simp_all
  have A': "(2::rat) powi (int m - 1) \<le> of_int a" "of_int a < (2::rat) powi int m"
  proof -
    have "(2::rat) powi (int m - 1) = 2 ^ (m - 1)"
      using A(3) by (simp add: power_int_def nat_diff_distrib)
    also have "\<dots> \<le> of_int a"
      unfolding ra using of_nat_mono [OF A(1), where 'a = rat] by simp
    finally show "(2::rat) powi (int m - 1) \<le> of_int a" .
    have "(of_nat (nat a) :: rat) < of_nat (2 ^ m)" using A(2) by (simp only: of_nat_less_iff)
    then show "of_int a < (2::rat) powi int m" unfolding ra by simp
  qed
  have B': "(2::rat) powi (int n - 1) \<le> of_int b" "of_int b < (2::rat) powi int n"
  proof -
    have "(2::rat) powi (int n - 1) = 2 ^ (n - 1)"
      using B(3) by (simp add: power_int_def nat_diff_distrib)
    also have "\<dots> \<le> of_int b"
      unfolding ra using of_nat_mono [OF B(1), where 'a = rat] by simp
    finally show "(2::rat) powi (int n - 1) \<le> of_int b" .
    have "(of_nat (nat b) :: rat) < of_nat (2 ^ n)" using B(2) by (simp only: of_nat_less_iff)
    then show "of_int b < (2::rat) powi int n" unfolding ra by simp
  qed
  have lo: "2 powi (int m - int n - 1) \<le> x"
  proof -
    have "2 powi (int m - int n - 1) = (2::rat) powi (int m - 1) / 2 powi int n"
      by (subst power_int_diff [symmetric]) (simp_all add: algebra_simps)
    also have "\<dots> \<le> of_int a / of_int b"
      using A' B' a b by (intro frac_le) auto
    finally show ?thesis using x by simp
  qed
  have hi: "x < 2 powi (int m - int n + 1)"
  proof -
    have "of_int a / of_int b < (2::rat) powi int m / 2 powi (int n - 1)"
      using A' B' a b by (intro frac_less) auto
    also have "\<dots> = 2 powi (int m - int n + 1)"
      by (subst power_int_diff [symmetric]) (simp_all add: algebra_simps)
    finally show ?thesis using x by simp
  qed
  show "2 powi ilog2 x \<le> x" "x < 2 powi (ilog2 x + 1)"
    using lo hi by (auto simp: ilog2_def q m_def n_def Let_def algebra_simps)
qed

lemma rnd53_error:
  assumes "0 < x"
  shows "\<bar>rnd53 x - x\<bar> \<le> 2 powi (ilog2 x - 53)"
proof -
  define e where "e = ilog2 x - 52"
  define u where "u = (2::rat) powi e"
  have u: "0 < u" by (simp add: u_def)
  have "\<bar>rnd53 x - x\<bar> = \<bar>of_int (round_half_even (x / u)) - x / u\<bar> * u"
    using assms u by (simp add: rnd53_def Let_def e_def u_def abs_mult_pos left_diff_distrib)
  also have "\<dots> \<le> 1 / 2 * u"
    using u round_half_even_error by (intro mult_right_mono) auto
  also have "\<dots> = 2 powi (ilog2 x - 53)"
    using power_int_diff [of "2::rat" e 1] by (simp add: u_def e_def)
  finally show ?thesis .
qed

lemma powi_less_cancel: "(2::rat) powi a < 2 powi b \<Longrightarrow> a < b"
  by (meson linorder_not_less one_le_numeral power_int_increasing)

lemma ilog2_less: "0 < x \<Longrightarrow> x < 2 powi k \<Longrightarrow> ilog2 x < k"
  using ilog2_bounds(1) [of x] powi_less_cancel by (meson le_less_trans)

lemma rnd53_int:
  assumes "0 < n" "n < 2 ^ 53"
  shows "rnd53 (of_int n) = of_int n"
proof -
  have "(of_int n :: rat) < of_int (2 ^ 53)" using assms(2) by (simp only: of_int_less_iff)
  then have "ilog2 (of_int n) < 53"
    using ilog2_less [of "of_int n" 53] assms(1) by simp
  then have k: "ilog2 (of_int n) - 52 = - int k" if "k = nat (52 - ilog2 (of_int n))" for k
    using that by simp
  define k where "k = nat (52 - ilog2 (of_int n :: rat))"
  note k = k [OF k_def]
  have "(2::rat) powi (- int k) = 1 / 2 ^ k"
    by (simp add: power_int_minus field_simps)
  moreover have "of_int n * 2 ^ k = (of_int (n * 2 ^ k) :: rat)" by simp
  moreover have "of_int (n * 2 ^ k) / 2 ^ k = (of_int n :: rat)" by simp
  ultimately show ?thesis
    using assms(1) k by (simp add: rnd53_def Let_def del: of_int_mult of_int_power)
qed

text \<open>
  Amounts below \<open>2\<^sup>2\<^sup>6\<close> coins: the double nearest to the amount is less than half a satoshi away.
\<close>

lemma ToBTC_nearest:
  assumes "0 \<le> n" "n < 2 ^ 26 * 10 ^ 8"
  shows "round_half_even (ToBTC n * 10 ^ 8) = n" "0 \<le> ToBTC n"
proof -
  have "round_half_even (ToBTC n * 10 ^ 8) = n \<and> 0 \<le> ToBTC n"
  proof (cases "n = 0")
    case True
    then show ?thesis using round_half_even_of_int [of 0] by (simp add: ToBTC_def rnd53_def)
  next
    case False
    define x where "x = (of_int n :: rat) / 10 ^ 8"
    have x: "0 < x" using False assms(1) by (simp add: x_def)
    have "(of_int n :: rat) < of_int (2 ^ 26 * 10 ^ 8)" using assms(2) by (simp only: of_int_less_iff)
    then have "x < 2 powi 26" by (simp add: x_def)
    then have "ilog2 x < 26" by (rule ilog2_less [OF x])
    then have "2 powi (ilog2 x - 53) \<le> (2::rat) powi (- 28)"
      by (intro power_int_increasing) auto
    then have err: "\<bar>rnd53 x - x\<bar> \<le> 1 / 2 ^ 28"
      using rnd53_error [OF x] by (simp add: power_int_minus field_simps)
    have q: "ToBTC n = rnd53 x"
      using False assms by (simp add: ToBTC_def x_def rnd53_int)
    have "\<bar>ToBTC n * 10 ^ 8 - of_int n\<bar> = \<bar>rnd53 x - x\<bar> * 10 ^ 8"
      unfolding q by (simp add: x_def abs_mult_pos left_diff_distrib)
    also have "\<dots> < 1 / 2" using err by simp
    finally have "round_half_even (ToBTC n * 10 ^ 8) = n"
      by (rule round_half_even_unique)
    moreover have "0 \<le> rnd53 x"
    proof -
      have "1 / 10 ^ 8 \<le> x" using False assms(1) by (simp add: x_def)
      then show ?thesis using err by (simp add: abs_if split: if_splits)
    qed
    ultimately show ?thesis using q by simp
  qed
  then show "round_half_even (ToBTC n * 10 ^ 8) = n" "0 \<le> ToBTC n" by simp_all
qed

section \<open>Decimal texts of amounts\<close>

lemma digit_val_dot [simp]: "digit_val CHR ''.'' = None"
  by (simp add: digit_val_def)

lemma ToSatoshi_point:
  assumes "all_digits w" "all_digits f"
  shows "ToSatoshi (w @ CHR ''.'' # f) =
    rbind (Repeat ''0'' (8 - int (length f))) (\<lambda>zeros.
      case ParseInt (w @ f @ zeros) of
        (sats, None) \<Rightarrow> Inr sats
      | (_, Some e) \<Rightarrow>
          Inl (Err (ErrWrap ''failed to convert btc value into sats (int64)''
            (ErrNew (case e of ErrSyntax \<Rightarrow> ''invalid syntax'' | ErrRange \<Rightarrow> ''value out of range'')))))"
proof -
  have "CHR ''.'' \<notin> set w" "CHR ''.'' \<notin> set f"
    using assms all_digits_notin digit_val_dot by blast+
  then show ?thesis
    by (simp add: ToSatoshi_def UtxoPrecision_def Split_append Split_no_sep Replace1_dot)
qed

lemma ToSatoshi_digits:
  assumes "all_digits w" "all_digits f" "w @ f \<noteq> []" "length f \<le> 8"
    "dec_val 0 (w @ f) * 10 ^ (8 - length f) < 2 ^ 63"
  shows "ToSatoshi (w @ CHR ''.'' # f) = Inr (int (dec_val 0 (w @ f) * 10 ^ (8 - length f)))"
proof -
  have k: "nat (8 - int (length f)) = 8 - length f" by simp
  let ?s = "w @ f @ replicate (8 - length f) CHR ''0''"
  have "ParseInt ?s = (int (dec_val 0 ?s), None)"
    using assms by (intro ParseInt_digits) auto
  then show ?thesis
    using assms by (simp add: ToSatoshi_point k)
qed

lemma pad_left_props:
  assumes "n < 10 ^ k" "0 < k"
  shows "length (pad_left k (digits n)) = k" "all_digits (pad_left k (digits n))"
    "dec_val 0 (pad_left k (digits n)) = n"
proof -
  have "length (digits n) \<le> k"
    using assms
  proof (induction n arbitrary: k rule: digits.induct)
    case (1 n)
    show ?case
    proof (cases "n < 10")
      case True
      then show ?thesis using "1.prems" by (subst digits.simps) simp
    next
      case False
      then obtain j where k: "k = Suc j" "0 < j"
        using "1.prems" by (cases k; cases "k - 1") auto
      then have "n div 10 < 10 ^ j" using "1.prems" by (simp add: less_mult_imp_div_less mult.commute)
      then show ?thesis using "1.IH" [OF False _ k(2)] False k by (subst digits.simps) simp
    qed
  qed
  then show "length (pad_left k (digits n)) = k" by (simp add: pad_left_def)
  show "all_digits (pad_left k (digits n))" by (simp add: pad_left_def)
  show "dec_val 0 (pad_left k (digits n)) = n" by (simp add: pad_left_def)
qed

lemma ToSatoshi_shown:
  assumes "0 \<le> sats" "sats < 2 ^ 26 * 10 ^ 8"
  shows "ToSatoshi (Sprintf_8f (ToBTC sats)) = Inr sats"
proof -
  let ?n = "nat sats"
  let ?w = "digits (?n div 10 ^ 8)" and ?f = "pad_left 8 (digits (?n mod 10 ^ 8))"
  note f = pad_left_props [of "?n mod 10 ^ 8" 8, simplified]
  have shown: "Sprintf_8f (ToBTC sats) = ?w @ CHR ''.'' # ?f"
    using ToBTC_nearest [OF assms] assms(1) by (simp add: Sprintf_8f_def Let_def)
  have val: "dec_val 0 (?w @ ?f) = ?n"
    using f dec_val_shift [of "?n div 10 ^ 8" ?f] by simp
  have "ToSatoshi (?w @ CHR ''.'' # ?f) = Inr (int (dec_val 0 (?w @ ?f) * 10 ^ (8 - length ?f)))"
    using f val assms by (intro ToSatoshi_digits) (auto simp: nat_less_iff)
  then show ?thesis using shown val f(1) assms(1) by simp
qed

text \<open>
  C21: amounts survive their display.  For every amount below \<open>2\<^sup>2\<^sup>6\<close> coins the text printed with
  eight decimals from the double precision value parses back to exactly the same number of
  satoshis.
\<close>

theorem amount_display_roundtrip:
  assumes "0 \<le> sats" "sats < 2 ^ 26 * 10 ^ 8"
  shows "ToSatoshi (Sprintf_8f (ToBTC sats)) = Inr sats"
  by (rule ToSatoshi_shown [OF assms])

theorem amount_display_roundtrip_witness:
  "ToSatoshi (Sprintf_8f (ToBTC 2099999997690000)) = Inr 2099999997690000"
  by (rule amount_display_roundtrip) simp_all

lemma ilog2_unique:
  assumes "2 powi k \<le> x" "x < 2 powi (k + 1)" "0 < x"
  shows "ilog2 x = k"
proof -
  have "ilog2 x < k + 1" "k < ilog2 x + 1"
    using ilog2_bounds [OF assms(3)] assms powi_less_cancel by (meson le_less_trans)+
  then show ?thesis by simp
qed

text \<open>
  Display loses satoshis from \<open>2\<^sup>2\<^sup>6\<close> coins on, a quantity that occurs on a chain without a
  supply cap.  \<open>2\<^sup>2\<^sup>6\<close> coins and two satoshis are shown, and summed up, one satoshi short.
\<close>

lemma amount_display_loses_satoshi:
  "ToSatoshi (Sprintf_8f (ToBTC (2 ^ 26 * 10 ^ 8 + 2))) = Inr (2 ^ 26 * 10 ^ 8 + 1)"
proof -
  let ?x = "6710886400000002 / 100000000 :: rat"
  have e: "ilog2 ?x = 26" by (rule ilog2_unique) simp_all
  have "rnd53 (of_int 6710886400000002) = of_int 6710886400000002"
    by (rule rnd53_int) simp_all
  moreover have "round_half_even (?x / 2 powi (ilog2 ?x - 52)) = 2 ^ 52 + 1"
    unfolding e by (rule round_half_even_unique) (simp add: power_int_minus)
  ultimately have q: "ToBTC (2 ^ 26 * 10 ^ 8 + 2) = (2 ^ 52 + 1) / 2 ^ 26"
    using e by (simp add: ToBTC_def rnd53_def power_int_minus)
  have "round_half_even ((2 ^ 52 + 1) / 2 ^ 26 * 10 ^ 8) = 2 ^ 26 * 10 ^ 8 + 1"
    by (rule round_half_even_unique) simp
  then have "Sprintf_8f ((2 ^ 52 + 1) / 2 ^ 26) = digits 67108864 @ ''.'' @ pad_left 8 (digits 1)"
    by (simp add: Sprintf_8f_def)
  also have "\<dots> = ''67108864.00000001''"
    by (simp add: pad_left_def go_simps)
  finally have "Sprintf_8f ((2 ^ 52 + 1) / 2 ^ 26) = ''67108864.00000001''" .
  moreover have "ToSatoshi ''67108864.00000001'' = Inr 6710886400000001"
    using ToSatoshi_digits [of "''67108864''" "''00000001''"] by (simp add: digit_val_def)
  ultimately show ?thesis unfolding q by simp
qed



end
