(* ===== verification/Postgres.thy ===== *)
theory Postgres
  imports Db_Chain Config Convert
begin

text \<open>
  \<open>V2/pkg/postgres/postgres.go\<close>: the database layer.  A connection is the database behind it with
  a plan of what happens to the coming queries: the network may fail before or after the server
  has executed one, and a result set may break off.  Plans also fix what SQL leaves open, the order
  of rows without \<open>ORDER BY\<close> and the row a \<open>SELECT ... INTO\<close> takes; an exhausted plan means
  no failure and table order.  Texts interpolated into messages are left out.  The semaphore \<open>sem\<close>
  only limits how many queries run at once and is not part of the state.
\<close>

section \<open>Connections\<close>

datatype outcome = Done | LostBefore | LostAfter | Cut nat

record plan =
  p_outcome :: outcome
  p_order :: "nat list"
  p_pick :: "block_row list \<Rightarrow> block_row"

text \<open>\<open>c_fmt\<close>: how a time is printed in RFC 3339 in the session's time zone; \<open>c_live\<close>: the server's
  estimate of the number of transactions.\<close>

record conn =
  c_db :: db
  c_plans :: "plan list"
  c_now :: int
  c_fmt :: "int \<Rightarrow> string"
  c_live :: "int option"

definition next_plan :: "conn \<Rightarrow> plan" where
  "next_plan w = (case c_plans w of
     [] \<Rightarrow> \<lparr>p_outcome = Done, p_order = [], p_pick = hd\<rparr> | p # _ \<Rightarrow> p)"

abbreviation bad_conn :: "'a result" where
  "bad_conn \<equiv> Inl (Err (ErrNew ''driver: bad connection''))"

abbreviation ErrNoRows :: gerror where
  "ErrNoRows \<equiv> ErrNew ''sql: no rows in result set''"

text \<open>Rows in the order the server chose; anything but a permutation of the positions is ignored.\<close>

definition reorder :: "nat list \<Rightarrow> 'r list \<Rightarrow> 'r list" where
  "reorder ord rs = (if length ord = length rs \<and> distinct ord \<and> list_all (\<lambda>i. i < length rs) ord
     then map ((!) rs) ord else rs)"

definition run :: "(plan \<Rightarrow> db \<Rightarrow> 'a result \<times> db) \<Rightarrow> bool \<Rightarrow> (conn, 'a) io" where
  "run q lost w = (case q (next_plan w) (c_db w) of (r, d) \<Rightarrow>
     (if lost then bad_conn else r, w\<lparr>c_db := d, c_plans := tl (c_plans w)\<rparr>))"

definition Exec :: "(plan \<Rightarrow> db \<Rightarrow> 'a result \<times> db) \<Rightarrow> (conn, 'a) io" where
  "Exec q w = (case p_outcome (next_plan w) of
     Done \<Rightarrow> run q False w
   | LostBefore \<Rightarrow> (bad_conn, w\<lparr>c_plans := tl (c_plans w)\<rparr>)
   | _ \<Rightarrow> run q True w)"

text \<open>\<open>QueryRow\<close> with \<open>Scan\<close>: an interruption before the first row is an error, later ones are not seen.\<close>

definition QueryRow :: "(plan \<Rightarrow> db \<Rightarrow> 'a result \<times> db) \<Rightarrow> (conn, 'a) io" where
  "QueryRow q w = (case p_outcome (next_plan w) of
     Done \<Rightarrow> run q False w
   | LostBefore \<Rightarrow> (bad_conn, w\<lparr>c_plans := tl (c_plans w)\<rparr>)
   | LostAfter \<Rightarrow> run q True w
   | Cut n \<Rightarrow> run q (n = 0) w)"

text \<open>
  \<open>Query\<close> with the loop over \<open>rows.Next\<close>: the loop ends without an error when the result set breaks
  off, because \<open>rows.Err\<close> is not asked.
\<close>

definition Query :: "(db \<Rightarrow> 'r list) \<Rightarrow> ('r list \<Rightarrow> 'r list result) \<Rightarrow> (conn, 'r list) io" where
  "Query sel clauses w =
    (let p = next_plan w; w' = w\<lparr>c_plans := tl (c_plans w)\<rparr> in
     case p_outcome p of
       Done \<Rightarrow> (clauses (reorder (p_order p) (sel (c_db w))), w')
     | Cut n \<Rightarrow> (rbind (clauses (reorder (p_order p) (sel (c_db w)))) (\<lambda>rs. Inr (take n rs)), w')
     | _ \<Rightarrow> (bad_conn, w'))"

definition first_row :: "'r list \<Rightarrow> plan \<Rightarrow> 'r result" where
  "first_row rs p = (case reorder (p_order p) rs of [] \<Rightarrow> Inl (Err ErrNoRows) | r # _ \<Rightarrow> Inr r)"

text \<open>
  \<open>LIMIT\<close> and \<open>OFFSET\<close> clauses: the callers pass the empty text (\<open>None\<close>) or \<open>LIMIT n\<close>, \<open>OFFSET n\<close>.
\<close>

definition limited :: "int option \<Rightarrow> int option \<Rightarrow> 'r list \<Rightarrow> 'r list result" where
  "limited limit offset rs =
    rbind (case offset of None \<Rightarrow> Inr rs | Some m \<Rightarrow>
             if m < 0 then sql_error ''OFFSET must not be negative'' else Inr (drop (nat m) rs))
      (\<lambda>rs. case limit of None \<Rightarrow> Inr rs | Some n \<Rightarrow>
             if n < 0 then sql_error ''LIMIT must not be negative'' else Inr (take (nat n) rs))"

section \<open>The database handle\<close>

record Database =
  prefix :: string
  sem :: int
  d_retry :: Retry_cfg
  d_timeout :: int

text \<open>\<open>strings.Replace(query, "_SCHEMA_", prefix, -1)\<close>.\<close>

function compile :: "string \<Rightarrow> string \<Rightarrow> string" where
  "compile query pre =
    (if query = [] then []
     else if HasPrefix query ''_SCHEMA_'' then pre @ compile (drop 8 query) pre
     else hd query # compile (tl query) pre)"
  by pat_completeness auto
termination
  by (relation "measure (\<lambda>(query, _). length query)") (auto simp: HasPrefix_def)

declare compile.simps [simp del]

definition schemaFromCoin :: "string \<Rightarrow> string" where
  "schemaFromCoin coin =
    (let c = ToUpper coin in
     if c = ''BTC'' then ''btc''
     else if c = ''BCH'' then ''bch''
     else if c = ''BTCTESTNET'' then ''btctestnet''
     else if c = ''DGB'' then ''dgb''
     else if c = ''LTC'' then ''ltc''
     else if c = ''DASH'' then ''dash''
     else if c = ''DOGE'' then ''doge''
     else [])"

text \<open>\<open>opened\<close> and \<open>ping\<close> are the outcomes of \<open>sql.Open\<close> and \<open>Ping\<close>.\<close>

definition New_Database :: "unit result \<Rightarrow> unit result \<Rightarrow> DB_cfg \<Rightarrow> string \<Rightarrow> Database result" where
  "New_Database opened ping cfg coin =
    rbind (wrapf ''failed to open connection to db'' opened) (\<lambda>_.
    if schemaFromCoin coin = [] then
      Inl (Err (ErrWrap ''Invalid schema for given coin'' (ErrNew ''Coin is unsupported'')))
    else
    rbind (wrapf ''failed to communicate with db'' ping) (\<lambda>_.
    if MaxConns (DB_BaseDB cfg) < 0 then Inl (Panic ''makechan: size out of range'')
    else Inr \<lparr>prefix = schemaFromCoin coin, sem = MaxConns (DB_BaseDB cfg),
           d_retry = db_Retry (DB_BaseDB cfg),
           d_timeout = i64 (db_Timeout (DB_BaseDB cfg) * 1000000000)\<rparr>))"

section \<open>Metadata and counters\<close>

definition Get_key :: "Database \<Rightarrow> string \<Rightarrow> (conn, string) io" where
  "Get_key d k = iowrapf ''failed to get value for key'' (QueryRow (\<lambda>p s.
     (case metadata s k of None \<Rightarrow> Inl (Err ErrNoRows) | Some v \<Rightarrow> Inr v, s)))"

definition Set_key :: "Database \<Rightarrow> string \<Rightarrow> string \<Rightarrow> (conn, unit) io" where
  "Set_key d k value = iowrapf ''failed to set key'' (Exec (\<lambda>p s.
     (Inr (), s\<lparr>metadata := (metadata s)(k \<mapsto> value)\<rparr>)))"

definition GetOrphanCount :: "Database \<Rightarrow> (conn, int) io" where
  "GetOrphanCount d = iowrapf ''failed to get orphan count'' (QueryRow (\<lambda>p s.
     (Inr (int (length (filter is_orphaned (blocks s)))), s)))"

definition DeleteOrphans :: "Database \<Rightarrow> (conn, unit) io" where
  "DeleteOrphans d = Simple (Attempts (d_retry d)) 3
     (iowrapf ''failed to delete orphans'' (Exec (\<lambda>p. delete_orphans)))"

definition GetNumTransactions :: "Database \<Rightarrow> (conn, int) io" where
  "GetNumTransactions d w = iowrapf ''failed to get transaction count'' (QueryRow (\<lambda>p s.
     (case c_live w of None \<Rightarrow> Inl (Err ErrNoRows) | Some n \<Rightarrow> Inr n, s))) w"

text \<open>\<open>limitClause\<close> is empty or \<open>AND id >= n\<close>.\<close>

definition GetPendingTxs :: "Database \<Rightarrow> int option \<Rightarrow> (conn, PendingTx list) io" where
  "GetPendingTxs d from = iowrapf ''failed to get pending transactions'' (Query
     (\<lambda>s. map (\<lambda>t. \<lparr>ptx_ID = t_id t, ptx_TxID = t_txid t\<rparr>)
       (filter (\<lambda>t. t_block_id t = None \<and> (case from of None \<Rightarrow> True | Some n \<Rightarrow> n \<le> t_id t)) (txs s)))
     (\<lambda>rs. Inr (sort_key ptx_ID rs)))"

text \<open>\<open>date\<close> in Unix seconds.\<close>

definition GetTxAtBlockTime :: "Database \<Rightarrow> int \<Rightarrow> (conn, int) io" where
  "GetTxAtBlockTime d date = iowrapf ''failed to get highest validated transaction'' (QueryRow (\<lambda>p s.
     (case sort (map blk_id (filter (\<lambda>b. date \<le> mined_time b) (blocks s))) of
        [] \<Rightarrow> Inl (Err ErrNoRows)
      | b # _ \<Rightarrow>
          (case sort (map t_id (filter (\<lambda>t. t_block_id t = Some b) (txs s))) of
             [] \<Rightarrow> Inl (Err ErrNoRows) | i # _ \<Rightarrow> Inr i), s)))"

definition DeleteInvalidTxs :: "Database \<Rightarrow> int list \<Rightarrow> (conn, unit) io" where
  "DeleteInvalidTxs d ids = Simple (Attempts (d_retry d)) 3
     (iowrapf ''failed to delete invalid txs'' (Exec (\<lambda>p. delete_invalid_txs ids)))"

section \<open>Blocks\<close>

text \<open>\<open>json.Marshal\<close> of a \<open>json.Number\<close>: the empty one is 0, an invalid literal is an error.\<close>

definition marshal_number :: "string \<Rightarrow> string result" where
  "marshal_number s =
    (if s = [] then Inr ''0''
     else if isValidNumber s then Inr s
     else Inl (Err (ErrNew ''json: invalid number literal'')))"

text \<open>
  \<open>InsertBlock\<close>: the header goes without its times, which are arguments of their own.  A procedure
  that does not return is cut off by the deadline, if there is one.
\<close>

definition blockObj :: "'a BlockHeader_scheme \<Rightarrow> BlockHeader" where
  "blockObj b = (header_of b)\<lparr>b_Time := 0, b_MedianTime := 0, b_IsOrphan := False\<rparr>"

definition call_block_insert :: "Database \<Rightarrow> BlockHeader \<Rightarrow> int \<Rightarrow> int \<Rightarrow> bool \<Rightarrow> plan \<Rightarrow> db
    \<Rightarrow> int result \<times> db" where
  "call_block_insert d b mined median recover p s =
    (case block_insert (p_pick p) b mined median recover s of
       Some r \<Rightarrow> r
     | None \<Rightarrow> (if 0 < d_timeout d then sql_error ''canceling statement due to user request''
                else Inl (Exit ''no return''), s))"

definition InsertBlock :: "Database \<Rightarrow> 'a BlockHeader_scheme \<Rightarrow> bool \<Rightarrow> (conn, int) io" where
  "InsertBlock d b recover = Simple (Attempts (d_retry d)) 3
    (iobind (iowrapf ''failed to marshal object'' (iolift (marshal_number (b_Difficulty b)))) (\<lambda>diff.
     iowrapf ''failed to insert block'' (QueryRow
       (call_block_insert d ((blockObj b)\<lparr>b_Difficulty := diff\<rparr>) (b_Time b) (b_MedianTime b) recover))))"

text \<open>\<open>LastBlock\<close> fills the hash and the height only; no active block is \<open>nil\<close>.\<close>

record LastBlock_row =
  last_Hash :: string
  last_Height :: int

definition LastBlock :: "Database \<Rightarrow> (conn, LastBlock_row option) io" where
  "LastBlock d w =
    (case QueryRow (\<lambda>p s.
       (case last_height (blocks s) of
          None \<Rightarrow> Inl (Err ErrNoRows)
        | Some h \<Rightarrow> rbind (first_row (filter (\<lambda>r. \<not> is_orphaned r \<and> height r = h) (blocks s)) p)
            (\<lambda>r. Inr \<lparr>last_Hash = block_hash r, last_Height = height r\<rparr>), s)) w of
       (Inr b, w') \<Rightarrow> (Inr (Some b), w')
     | (Inl e, w') \<Rightarrow> (if e = Err ErrNoRows then Inr None
                       else wrapf ''failed to get last block'' (Inl e), w'))"

datatype BlockVal = ByHeight int | ByHash string | ByOther

text \<open>\<open>SELECT *\<close> scanned into a block without transactions.\<close>

definition scan_block :: "block_row \<Rightarrow> BlockHeader" where
  "scan_block r =
    \<lparr>b_Hash = block_hash r, b_Height = height r, b_Time = mined_time r, b_MedianTime = median_time r,
     b_Nonce = nonce r, b_PrevHash = last_block_hash r, b_NextHash = next_block_hash r,
     b_Bits = bits r, b_Difficulty = difficulty r, b_Chainwork = chainwork r, b_Version = version r,
     b_VersionHex = version_hex r, b_MerkleRoot = merkle_root r, b_Size = bsize r,
     b_StrippedSize = stripped_size r, b_Weight = weight r, b_TxCount = tx_count r,
     b_IsOrphan = is_orphaned r\<rparr>"

definition select_block :: "(block_row \<Rightarrow> bool) \<Rightarrow> (conn, BlockHeader) io" where
  "select_block P = iowrapf ''failed to get block'' (QueryRow (\<lambda>p s.
     (rbind (first_row (filter P (blocks s)) p) (\<lambda>r. Inr (scan_block r)), s)))"

fun GetBlock :: "Database \<Rightarrow> BlockVal \<Rightarrow> (conn, BlockHeader) io" where
  "GetBlock d (ByHeight h) = select_block (\<lambda>r. height r = h \<and> \<not> is_orphaned r)"
| "GetBlock d (ByHash x) = select_block (\<lambda>r. block_hash r = x)"
| "GetBlock d ByOther =
    iofail (Err (ErrNew ''Blocks val must be of type int or string''))"

section \<open>Transactions of a block\<close>

definition txs_of_block :: "db \<Rightarrow> string \<Rightarrow> tx_row list" where
  "txs_of_block s hash = concat (map (\<lambda>t.
     map (\<lambda>b. t) (filter (\<lambda>b. t_block_id t = Some (blk_id b) \<and> block_hash b = hash \<and> \<not> is_orphaned b)
       (blocks s))) (txs s))"

definition GetTxHashesByBlockHash ::
  "Database \<Rightarrow> string \<Rightarrow> int option \<Rightarrow> int option \<Rightarrow> (conn, string list) io" where
  "GetTxHashesByBlockHash d hash limit offset = iowrapf ''failed to get txhashes from block hash''
     (Query (\<lambda>s. map t_txid (txs_of_block s hash)) (limited limit offset))"

definition GetTotalTxsByBlockHash :: "Database \<Rightarrow> string \<Rightarrow> (conn, int) io" where
  "GetTotalTxsByBlockHash d hash = iowrapf ''failed to get total transaction count from block''
     (QueryRow (\<lambda>p s. (Inr (int (length (txs_of_block s hash))), s)))"

section \<open>Inputs and outputs\<close>

text \<open>\<open>LEFT JOIN block ON transaction.block_id = block.id AND block.is_orphaned = FALSE\<close>.\<close>

definition left_block :: "db \<Rightarrow> tx_row \<Rightarrow> block_row option list" where
  "left_block s t =
    (case filter (\<lambda>b. t_block_id t = Some (blk_id b) \<and> \<not> is_orphaned b) (blocks s) of
       [] \<Rightarrow> [None] | bs \<Rightarrow> map Some bs)"

definition spent_rows :: "db \<Rightarrow> string \<Rightarrow> int \<Rightarrow> SpentTxDetails list" where
  "spent_rows s txid vout =
    concat (map (\<lambda>i. concat (map (\<lambda>t.
      map (\<lambda>b. \<lparr>SpentTxID = t_txid t, SpentIndex = i_vin i,
                 SpentHeight = (case b of None \<Rightarrow> -1 | Some b \<Rightarrow> height b)\<rparr>) (left_block s t))
        (filter (\<lambda>t. t_id t = i_transaction_id i) (txs s))))
      (filter (\<lambda>i. i_spent_txid i = txid \<and> i_spent_vout i = vout) (inputs s)))"

text \<open>Every error, not only a missing row, is reported as unspent.\<close>

definition GetSpentTxDetails :: "Database \<Rightarrow> string \<Rightarrow> int \<Rightarrow> (conn, SpentTxDetails option) io" where
  "GetSpentTxDetails d txid vout = iologged
     (QueryRow (\<lambda>p s. (first_row (spent_rows s txid vout) p, s)))"

definition utxo_row :: "(int \<Rightarrow> string) \<Rightarrow> int \<Rightarrow> output_row \<Rightarrow> tx_row \<Rightarrow> block_row option \<Rightarrow> Utxo" where
  "utxo_row fmt now r t b =
    \<lparr>u_Vout = o_vout r, u_Hex = o_hex r, u_ReqSigs = o_req_sigs r, u_Type = o_type r,
     u_Address = o_address r, u_SatAmount = o_amount r, u_TxID = t_txid t,
     u_BlockHeight = (case b of None \<Rightarrow> -1 | Some b \<Rightarrow> height b),
     u_Timestamp = (case b of None \<Rightarrow> fmt now | Some b \<Rightarrow> fmt (mined_time b))\<rparr>"

definition is_spent :: "db \<Rightarrow> string \<Rightarrow> int \<Rightarrow> bool" where
  "is_spent s txid vout \<longleftrightarrow> (\<exists>i \<in> set (inputs s). i_spent_txid i = txid \<and> i_spent_vout i = vout)"

definition utxo_rows :: "(int \<Rightarrow> string) \<Rightarrow> int \<Rightarrow> string list \<Rightarrow> db \<Rightarrow> Utxo list" where
  "utxo_rows fmt now addrs s =
    concat (map (\<lambda>r. concat (map (\<lambda>t. map (utxo_row fmt now r t) (left_block s t))
        (filter (\<lambda>t. t_id t = o_transaction_id r \<and> \<not> is_spent s (t_txid t) (o_vout r)) (txs s))))
      (filter (\<lambda>r. o_address r \<in> set addrs) (outputs s)))"

definition GetUtxosByAddrs :: "Database \<Rightarrow> string list \<Rightarrow> (conn, Utxo list) io" where
  "GetUtxosByAddrs d addrs w = iowrapf ''failed to get utxos from addresses''
     (Query (utxo_rows (c_fmt w) (c_now w) addrs) Inr) w"

text \<open>\<open>Addresses\<close> is not selected.\<close>

definition scan_output :: "output_row \<Rightarrow> Output" where
  "scan_output r =
    \<lparr>out_Vout = o_vout r, out_SatAmount = o_amount r, out_Asm = o_asm r, out_Hex = o_hex r,
     out_ReqSigs = o_req_sigs r, out_Type = o_type r, out_Address = o_address r, out_Addresses = []\<rparr>"

text \<open>\<open>voutClause\<close> is empty or \<open>AND output.vout = n\<close>.\<close>

definition GetOutputsByTxID :: "Database \<Rightarrow> string \<Rightarrow> int option \<Rightarrow> (conn, Output list) io" where
  "GetOutputsByTxID d txid vout = iowrapf ''failed to get outputs from txid'' (Query
     (\<lambda>s. concat (map (\<lambda>r. concat (map (\<lambda>t. map (\<lambda>b. scan_output r) (left_block s t))
            (filter (\<lambda>t. t_id t = o_transaction_id r \<and> t_txid t = txid) (txs s))))
          (filter (\<lambda>r. case vout of None \<Rightarrow> True | Some n \<Rightarrow> o_vout r = n) (outputs s)))) Inr)"

text \<open>
  The stored text of the witnesses loses brackets, blanks and quotes and is split at the commas.
\<close>

definition witness_of :: "string \<Rightarrow> string list" where
  "witness_of str = (if str = ''[]'' then []
     else Split (filter (\<lambda>c. c \<notin> set ''[] '' \<and> c \<noteq> CHR 0x22) str) CHR '','')"

definition scan_input :: "input_row \<Rightarrow> Input" where
  "scan_input r =
    \<lparr>in_Vin = i_vin r, in_SpentTx = i_spent_txid r, in_SpentVout = i_spent_vout r, in_Asm = i_asm r,
     in_Hex = i_hex r, in_Sequence = i_sequence r, in_TxInWitness = map_option witness_of (i_witness r),
     in_Coinbase = i_coinbase r\<rparr>"

definition GetInputsByTxID :: "Database \<Rightarrow> string \<Rightarrow> (conn, Input list) io" where
  "GetInputsByTxID d txid = iowrapf ''failed to get inputs from txid'' (Query
     (\<lambda>s. concat (map (\<lambda>r. concat (map (\<lambda>t. map (\<lambda>b. scan_input r) (left_block s t))
            (filter (\<lambda>t. t_id t = i_transaction_id r \<and> t_txid t = txid) (txs s))))
          (inputs s))) Inr)"

section \<open>Transactions of addresses\<close>

text \<open>
  The two halves of the \<open>UNION\<close>: the transactions paying to the addresses and those spending an
  output paid to them.
\<close>

definition receiving :: "string list \<Rightarrow> db \<Rightarrow> (int \<times> string) list" where
  "receiving addrs s = concat (map (\<lambda>t. concat (map (\<lambda>r. map (\<lambda>b. (t_id t, t_txid t)) (left_block s t))
     (filter (\<lambda>r. o_transaction_id r = t_id t \<and> o_address r \<in> set addrs) (outputs s)))) (txs s))"

definition spending :: "string list \<Rightarrow> db \<Rightarrow> (int \<times> string) list" where
  "spending addrs s =
    concat (map (\<lambda>r. concat (map (\<lambda>i. concat (map (\<lambda>src. concat (map (\<lambda>t.
      map (\<lambda>b. (t_id t, t_txid t)) (left_block s t))
        (filter (\<lambda>t. t_id t = i_transaction_id i) (txs s))))
        (filter (\<lambda>src. t_txid src = i_spent_txid i \<and> t_id src = o_transaction_id r) (txs s))))
        (filter (\<lambda>i. i_spent_vout i = o_vout r) (inputs s))))
      (filter (\<lambda>r. o_address r \<in> set addrs) (outputs s)))"

text \<open>\<open>whereClause\<close> is always empty.\<close>

definition GetTxIDsByAddresses ::
  "Database \<Rightarrow> string list \<Rightarrow> int option \<Rightarrow> int option \<Rightarrow> (conn, string list) io" where
  "GetTxIDsByAddresses d addrs limit offset = iobind
    (iowrapf ''failed to get tx details from addresses'' (Query
      (\<lambda>s. remdups (receiving addrs s @ spending addrs s))
      (\<lambda>rs. limited limit offset (rev (sort_key fst rs)))))
    (\<lambda>rs. ioret (map snd rs))"

definition GetTotalTxsByAddresses :: "Database \<Rightarrow> string list \<Rightarrow> (conn, int) io" where
  "GetTotalTxsByAddresses d addrs = iowrapf ''failed to get total transaction count from addresses''
     (QueryRow (\<lambda>p s. (Inr (int (length (remdups (map fst (receiving addrs s @ spending addrs s))))), s)))"

section \<open>Single transactions\<close>

definition tx_rows :: "db \<Rightarrow> string \<Rightarrow> (tx_row \<times> block_row option) list" where
  "tx_rows s txid = concat (map (\<lambda>t. map (Pair t) (left_block s t))
     (filter (\<lambda>t. t_txid t = txid) (txs s)))"

definition scan_tx :: "(int \<Rightarrow> string) \<Rightarrow> int \<Rightarrow> tx_row \<times> block_row option \<Rightarrow> DbTx" where
  "scan_tx fmt now = (\<lambda>(t, b).
    \<lparr>dtx_ID = t_id t, dtx_TxID = t_txid t, dtx_Hash = t_hash t, dtx_Version = t_version t,
     dtx_Size = t_size t, dtx_VSize = t_v_size t, dtx_Weight = t_weight t,
     dtx_Locktime = t_locktime t, dtx_Inputs = [], dtx_Outputs = [],
     dtx_BlockHash = (case b of None \<Rightarrow> [] | Some b \<Rightarrow> block_hash b),
     dtx_BlockHeight = (case b of None \<Rightarrow> -1 | Some b \<Rightarrow> height b),
     dtx_Time = (case b of None \<Rightarrow> fmt now | Some b \<Rightarrow> fmt (mined_time b)),
     dtx_BlockTime = (case b of None \<Rightarrow> [] | Some b \<Rightarrow> fmt (mined_time b)),
     dtx_Mempool = (b = None)\<rparr>)"

definition GetTxByTxID :: "Database \<Rightarrow> string \<Rightarrow> (conn, DbTx) io" where
  "GetTxByTxID d txid w = iowrapf ''failed to get transaction from txid''
    (iobind (QueryRow (\<lambda>p s. (first_row (tx_rows s txid) p, s))) (\<lambda>r.
     let t = scan_tx (c_fmt w) (c_now w) r in
     iobind (GetInputsByTxID d (dtx_TxID t)) (\<lambda>is.
     iobind (GetOutputsByTxID d (dtx_TxID t) None) (\<lambda>os.
     ioret (t\<lparr>dtx_Inputs := is, dtx_Outputs := os\<rparr>))))) w"

definition GetRawTxByTxID :: "Database \<Rightarrow> string \<Rightarrow> (conn, RawTx) io" where
  "GetRawTxByTxID d txid = iowrapf ''failed to get rawTx for txid'' (QueryRow (\<lambda>p s.
     (rbind (first_row (filter (\<lambda>t. t_txid t = txid) (txs s)) p) (\<lambda>t. Inr \<lparr>raw_Hex = t_raw t\<rparr>), s)))"

section \<open>\<open>InsertTx\<close>\<close>

fun input_objs :: "int \<Rightarrow> Vin list \<Rightarrow> Input list" where
  "input_objs i [] = []"
| "input_objs i (v # vs) =
    \<lparr>in_Vin = i, in_SpentTx = vin_TxID v, in_SpentVout = vin_Vout v, in_Asm = vin_Asm v,
     in_Hex = vin_Hex v, in_Sequence = vin_Sequence v, in_TxInWitness = vin_TxInWitness v,
     in_Coinbase = vin_Coinbase v\<rparr> # input_objs (i + 1) vs"

definition output_obj :: "Vout \<Rightarrow> Output result" where
  "output_obj v =
    (let addr = (case vout_Addresses v of [a] \<Rightarrow> a | _ \<Rightarrow> ''unsupported addr'') in
     rbind (wrapf ''failed to insert vout'' (ToSatoshi (vout_Value v))) (\<lambda>sats.
     Inr \<lparr>out_Vout = vout_N v, out_SatAmount = sats, out_Asm = vout_Asm v, out_Hex = vout_Hex v,
       out_ReqSigs = vout_ReqSigs v, out_Type = vout_Type v, out_Address = addr,
       out_Addresses = vout_Addresses v\<rparr>))"

definition txObj :: "Tx \<Rightarrow> tx_def result" where
  "txObj t =
    rbind (rmapM output_obj (tx_Vouts t)) (\<lambda>outs.
    rbind (wrapf ''failed to marshal object'' (marshal_number (tx_Locktime t))) (\<lambda>lt.
    Inr \<lparr>td_txid = tx_TxID t, td_hash = tx_Hash t, td_version = tx_Version t, td_size = tx_Size t,
      td_vsize = tx_VSize t, td_weight = tx_Weight t, td_locktime = lt,
      td_inputs = input_objs 0 (tx_Vins t), td_outputs = outs\<rparr>))"

definition InsertTx :: "Database \<Rightarrow> Tx \<Rightarrow> int \<Rightarrow> int \<Rightarrow> (conn, unit) io" where
  "InsertTx d t txIndex blockID =
    iobind (iolift (txObj t)) (\<lambda>obj.
    Simple (Attempts (d_retry d)) 3 (iowrapf ''failed to insert transaction''
      (Exec (\<lambda>p. transaction_insert blockID obj (tx_Hex t) txIndex))))"

end
