(* ===== verification/Postgres_Read.thy ===== *)
theory Postgres_Read
  imports Postgres "HOL-Library.Multiset"
begin

text \<open>
  What the queries return.  On a well formed database the joins reduce to filters on one table.  The
  history of a set of addresses is specified on its own and \<open>GetTxIDsByAddresses\<close> and
  \<open>GetTotalTxsByAddresses\<close> are shown to implement it; the unspent outputs agree with the answers of
  \<open>GetSpentTxDetails\<close>.
\<close>

section \<open>Orders of rows\<close>

lemma mset_reorder [simp]: "mset (reorder ord rs) = mset rs"
proof (cases "length ord = length rs \<and> distinct ord \<and> list_all (\<lambda>i. i < length rs) ord")
  case True
  then have "set ord \<subseteq> set [0..<length rs]" by (auto simp: list_all_iff)
  moreover have "card (set ord) = card (set [0..<length rs])"
    using True by (simp add: distinct_card)
  ultimately have "set ord = set [0..<length rs]"
    by (intro card_subset_eq) auto
  then have "mset ord = mset [0..<length rs]"
    using True by (simp add: set_eq_iff_mset_eq_distinct del: set_upt)
  then have "mset (map ((!) rs) ord) = mset (map ((!) rs) [0..<length rs])"
    by (simp only: mset_map)
  then show ?thesis using True by (simp add: reorder_def map_nth)
next
  case False
  then show ?thesis unfolding reorder_def by (simp only: if_False)
qed

lemma set_reorder [simp]: "set (reorder ord rs) = set rs"
  by (metis mset_reorder set_mset_mset)

lemma length_reorder [simp]: "length (reorder ord rs) = length rs"
  by (metis mset_reorder size_mset)

lemma distinct_reorder [simp]: "distinct (reorder ord rs) = distinct rs"
  by (metis mset_reorder mset_eq_imp_distinct_iff)

lemma reorder_Nil [simp]: "reorder ord rs = [] \<longleftrightarrow> rs = []"
  by (metis length_reorder length_0_conv)

lemma reorder_empty [simp]: "reorder ord [] = []"
  by simp

lemma reorder_single [simp]: "reorder ord [r] = [r]"
proof -
  have "length (reorder ord [r]) = 1" "set (reorder ord [r]) = {r}" by simp_all
  then show ?thesis by (cases "reorder ord [r]") auto
qed

lemma first_row_None: "first_row rs p = Inl e \<longleftrightarrow> rs = [] \<and> e = Err ErrNoRows"
  by (auto simp: first_row_def split: list.splits)

lemma first_row_Some: "first_row rs p = Inr r \<Longrightarrow> r \<in> set rs"
  by (auto simp: first_row_def split: list.splits dest!: arg_cong [of _ "_ # _" set])

lemma first_row_empty [simp]: "first_row [] p = Inl (Err ErrNoRows)"
  by (simp add: first_row_None)

lemma first_row_single [simp]: "first_row [r] p = Inr r"
  by (simp add: first_row_def)

section \<open>Joins on a well formed database\<close>

lemma filter_unique:
  assumes "distinct (map f xs)" "x \<in> set xs"
  shows "filter (\<lambda>y. f y = f x \<and> P y) xs = (if P x then [x] else [])"
  using assms by (induction xs) (auto simp: filter_empty_conv intro: rev_image_eqI)

lemma wf_dbD:
  assumes "wf_db s"
  shows "distinct (map blk_id (blocks s))" "distinct (map t_id (txs s))" "distinct (map t_txid (txs s))"
    "\<And>i. i \<in> set (inputs s) \<Longrightarrow> \<exists>t \<in> set (txs s). t_id t = i_transaction_id i"
    "\<And>r. r \<in> set (outputs s) \<Longrightarrow> \<exists>t \<in> set (txs s). t_id t = o_transaction_id r"
    "distinct (map out_key (outputs s))" "distinct (map in_key (inputs s))"
  using assms by (auto simp: wf_defs image_subset_iff image_iff) metis+

lemma left_block_single:
  assumes "wf_db s"
  obtains b where "left_block s t = [b]"
    "\<And>r. b = Some r \<Longrightarrow> r \<in> set (blocks s) \<and> t_block_id t = Some (blk_id r) \<and> \<not> is_orphaned r"
    "b = None \<Longrightarrow> (\<forall>r \<in> set (blocks s). t_block_id t = Some (blk_id r) \<longrightarrow> is_orphaned r)"
proof (cases "filter (\<lambda>b. t_block_id t = Some (blk_id b) \<and> \<not> is_orphaned b) (blocks s)")
  case Nil
  then have "\<forall>r \<in> set (blocks s). t_block_id t = Some (blk_id r) \<longrightarrow> is_orphaned r"
    by (auto simp: filter_empty_conv)
  then show thesis using that [of None] Nil by (simp add: left_block_def)
next
  case (Cons r rs)
  then have "r \<in> set (filter (\<lambda>b. t_block_id t = Some (blk_id b) \<and> \<not> is_orphaned b) (blocks s))"
    by simp
  then have r: "r \<in> set (blocks s)" "t_block_id t = Some (blk_id r)" "\<not> is_orphaned r" by auto
  have "filter (\<lambda>b. t_block_id t = Some (blk_id b) \<and> \<not> is_orphaned b) (blocks s) =
      filter (\<lambda>b. blk_id b = blk_id r \<and> \<not> is_orphaned b) (blocks s)"
    using r(2) by (intro filter_cong) auto
  also have "\<dots> = [r]"
    using filter_unique [OF wf_dbD(1) [OF assms] r(1), of "\<lambda>b. \<not> is_orphaned b"] r(3) by simp
  finally show thesis using that [of "Some r"] r by (simp add: left_block_def)
qed

lemma map_left_block: "wf_db s \<Longrightarrow> map (\<lambda>b. x) (left_block s t) = [x]"
  by (metis left_block_single list.simps(8,9))

lemma left_block_nonempty [simp]: "left_block s t \<noteq> []"
  by (auto simp: left_block_def split: list.splits)

text \<open>The rows of a table that belong to one transaction.\<close>

lemma join_single:
  assumes "wf_db s" "t \<in> set (txs s)"
  shows "concat (map (\<lambda>r. concat (map (\<lambda>u. map (\<lambda>b. f r) (left_block s u))
      (filter (\<lambda>u. t_id u = kf r \<and> t_txid u = t_txid t) (txs s)))) rs) =
    map f (filter (\<lambda>r. kf r = t_id t) rs)"
proof -
  have "filter (\<lambda>u. t_id u = k \<and> t_txid u = t_txid t) (txs s) = (if k = t_id t then [t] else [])" for k
    using filter_unique [OF wf_dbD(3) [OF assms(1)] assms(2), of "\<lambda>u. t_id u = k"]
    by (simp add: conj_commute eq_commute)
  then show ?thesis
    by (induction rs) (simp_all add: map_left_block [OF assms(1)])
qed

lemma tx_rows_single:
  assumes "wf_db s" "t \<in> set (txs s)" "left_block s t = [b]"
  shows "tx_rows s (t_txid t) = [(t, b)]"
  using filter_unique [OF wf_dbD(3) [OF assms(1)] assms(2), of "\<lambda>u. True"] assms(3)
  by (simp add: tx_rows_def)

section \<open>Transaction history of addresses\<close>

text \<open>
  Specification: a transaction belongs to the history when it pays to one of the addresses or
  spends an output paid to one of them; the history is newest first.
\<close>

definition pays :: "string list \<Rightarrow> db \<Rightarrow> tx_row \<Rightarrow> bool" where
  "pays addrs s t \<longleftrightarrow> (\<exists>r \<in> set (outputs s). o_transaction_id r = t_id t \<and> o_address r \<in> set addrs)"

definition spends :: "string list \<Rightarrow> db \<Rightarrow> tx_row \<Rightarrow> bool" where
  "spends addrs s t \<longleftrightarrow> (\<exists>i \<in> set (inputs s). i_transaction_id i = t_id t \<and>
     (\<exists>src \<in> set (txs s). t_txid src = i_spent_txid i \<and>
       (\<exists>r \<in> set (outputs s). o_transaction_id r = t_id src \<and> o_vout r = i_spent_vout i \<and>
          o_address r \<in> set addrs)))"

definition history :: "string list \<Rightarrow> db \<Rightarrow> string list" where
  "history addrs s =
    map t_txid (rev (sort_key t_id (filter (\<lambda>t. pays addrs s t \<or> spends addrs s t) (txs s))))"

lemma mem_concat_map: "x \<in> set (concat (map f xs)) \<longleftrightarrow> (\<exists>y \<in> set xs. x \<in> set (f y))"
  by auto

lemma mem_receiving:
  "x \<in> set (receiving addrs s) \<longleftrightarrow> (\<exists>t \<in> set (txs s). pays addrs s t \<and> x = (t_id t, t_txid t))"
  unfolding receiving_def pays_def by (simp add: image_constant_conv) blast

lemma mem_spending:
  "x \<in> set (spending addrs s) \<longleftrightarrow> (\<exists>t \<in> set (txs s). spends addrs s t \<and> x = (t_id t, t_txid t))"
proof
  assume "x \<in> set (spending addrs s)"
  then obtain r i src t where "r \<in> set (outputs s)" "o_address r \<in> set addrs" "i \<in> set (inputs s)"
    "i_spent_vout i = o_vout r" "src \<in> set (txs s)" "t_txid src = i_spent_txid i"
    "t_id src = o_transaction_id r" "t \<in> set (txs s)" "t_id t = i_transaction_id i"
    "x = (t_id t, t_txid t)"
    by (auto simp: spending_def)
  then show "\<exists>t \<in> set (txs s). spends addrs s t \<and> x = (t_id t, t_txid t)"
    unfolding spends_def by metis
next
  assume "\<exists>t \<in> set (txs s). spends addrs s t \<and> x = (t_id t, t_txid t)"
  then obtain r i src t where a: "r \<in> set (outputs s)" "o_address r \<in> set addrs" "i \<in> set (inputs s)"
    "i_spent_vout i = o_vout r" "src \<in> set (txs s)" "t_txid src = i_spent_txid i"
    "t_id src = o_transaction_id r" "t \<in> set (txs s)" "t_id t = i_transaction_id i"
    "x = (t_id t, t_txid t)"
    unfolding spends_def by metis
  have "x \<in> set (map (\<lambda>b. (t_id t, t_txid t)) (left_block s t))"
    using a(10) by (simp add: image_constant_conv)
  then show "x \<in> set (spending addrs s)"
    unfolding spending_def mem_concat_map
    by (intro bexI [of _ r] bexI [of _ i] bexI [of _ src] bexI [of _ t]) (use a in simp_all)
qed

lemma set_union_rows:
  "set (receiving addrs s @ spending addrs s) =
    (\<lambda>t. (t_id t, t_txid t)) ` {t \<in> set (txs s). pays addrs s t \<or> spends addrs s t}"
  unfolding set_append set_eq_iff Un_iff mem_receiving mem_spending by blast

lemma union_rows_sorted:
  assumes "wf_db s"
  shows "sort_key fst (reorder ord (remdups (receiving addrs s @ spending addrs s))) =
    map (\<lambda>t. (t_id t, t_txid t)) (sort_key t_id (filter (\<lambda>t. pays addrs s t \<or> spends addrs s t) (txs s)))"
    (is "?L = map ?f ?R")
proof (rule sorted_distinct_set_unique_key [where f = fst])
  have inj: "inj_on t_id (set (txs s))" "distinct (txs s)"
    using wf_dbD(2) [OF assms] by (simp_all add: distinct_map)
  have "map fst (map ?f xs) = map t_id xs" for xs by simp
  then show "sorted (map fst (map ?f ?R))" by (simp only: sorted_sort_key)
  show "set ?L = set (map ?f ?R)" using set_union_rows [of addrs s] by simp
  show "distinct (map ?f ?R)"
    using inj by (auto simp: distinct_map intro!: inj_onI dest: inj_onD)
  show "inj_on fst (set ?L)"
    using inj set_union_rows [of addrs s] by (auto intro!: inj_onI dest: inj_onD)
qed (simp_all add: sorted_sort_key)

lemma limited_map: "limited limit offset (map f xs) = rbind (limited limit offset xs) (\<lambda>ys. Inr (map f ys))"
  by (auto simp: limited_def take_map drop_map split: option.splits)

lemma wrapf_rbind_map:
  "rbind (wrapf msg r) (\<lambda>x. Inr (f x)) = wrapf msg (rbind r (\<lambda>x. Inr (f x)))"
  by (cases "(msg, r)" rule: wrapf.cases) simp_all

lemma case_rbind: "(case r of Inl e \<Rightarrow> (Inl e, w) | Inr x \<Rightarrow> ioret (f x) w) = (rbind r (\<lambda>x. Inr (f x)), w)"
  by (cases r) simp_all

lemma address_history_queries:
  assumes "wf_db (c_db w)" "p_outcome (next_plan w) = Done"
  shows "fst (GetTxIDsByAddresses d addrs limit offset w) =
      wrapf ''failed to get tx details from addresses'' (limited limit offset (history addrs (c_db w))) \<and>
    fst (GetTotalTxsByAddresses d addrs w) = Inr (int (length (history addrs (c_db w))))"
proof
  let ?ts = "rev (sort_key t_id (filter (\<lambda>t. pays addrs (c_db w) t \<or> spends addrs (c_db w) t) (txs (c_db w))))"
  have "rev (sort_key fst (reorder ord (remdups (receiving addrs (c_db w) @ spending addrs (c_db w))))) =
      map (\<lambda>t. (t_id t, t_txid t)) ?ts" for ord
    unfolding union_rows_sorted [OF assms(1)] rev_map ..
  then show "fst (GetTxIDsByAddresses d addrs limit offset w) =
      wrapf ''failed to get tx details from addresses'' (limited limit offset (history addrs (c_db w)))"
    using assms(2)
    by (simp add: GetTxIDsByAddresses_def iobind_def iowrapf_def Query_def Let_def limited_map
        history_def comp_def wrapf_rbind_map case_rbind rbind_assoc)
  have inj: "inj_on t_id (set (txs (c_db w)))" "distinct (txs (c_db w))"
    using wf_dbD(2) [OF assms(1)] by (simp_all add: distinct_map)
  have "set (map fst (receiving addrs (c_db w) @ spending addrs (c_db w))) = t_id ` set ?ts"
    unfolding set_map set_union_rows by force
  then have "length (remdups (map fst (receiving addrs (c_db w) @ spending addrs (c_db w)))) = card (t_id ` set ?ts)"
    by (simp only: length_remdups_card_conv)
  also have "\<dots> = card (set ?ts)"
    using inj(1) by (intro card_image) (auto simp: inj_on_def)
  also have "\<dots> = length ?ts"
    using inj(2) by (intro distinct_card) simp
  finally show "fst (GetTotalTxsByAddresses d addrs w) = Inr (int (length (history addrs (c_db w))))"
    using assms(2) by (simp add: GetTotalTxsByAddresses_def iowrapf_def QueryRow_def run_def history_def)
qed

text \<open>
  C15: the address queries implement the history.  On a well formed database \<open>GetTxIDsByAddresses\<close>
  returns the requested window of the history and \<open>GetTotalTxsByAddresses\<close> its length; an invalid
  window is an error.
\<close>

theorem address_history:
  assumes "wf_db (c_db w)" "p_outcome (next_plan w) = Done"
  shows "fst (GetTxIDsByAddresses d addrs limit offset w) =
      wrapf ''failed to get tx details from addresses'' (limited limit offset (history addrs (c_db w))) \<and>
    fst (GetTotalTxsByAddresses d addrs w) = Inr (int (length (history addrs (c_db w))))"
  by (rule address_history_queries [OF assms])

section \<open>Unspent outputs\<close>

lemma sum_list_mset_eq: "mset xs = mset ys \<Longrightarrow> sum_list xs = sum_list (ys :: int list)"
  by (metis sum_mset_sum_list)

lemma spent_rows_Nil:
  assumes "wf_db s"
  shows "spent_rows s txid vout = [] \<longleftrightarrow> \<not> is_spent s txid vout"
proof -
  have "filter (\<lambda>t. t_id t = i_transaction_id i) (txs s) \<noteq> []" if "i \<in> set (inputs s)" for i
    using wf_dbD(4) [OF assms that] by (auto simp: filter_empty_conv)
  then show ?thesis
    by (auto simp: spent_rows_def is_spent_def concat_eq_Nil_conv filter_empty_conv)
qed

lemma GetSpentTxDetails_None:
  assumes "wf_db (c_db w)" "p_outcome (next_plan w) = Done"
  shows "fst (GetSpentTxDetails d txid vout w) = Inr None \<longleftrightarrow> \<not> is_spent (c_db w) txid vout"
proof (cases "first_row (spent_rows (c_db w) txid vout) (next_plan w)")
  case (Inl e)
  then show ?thesis
    using assms spent_rows_Nil [OF assms(1), of txid vout]
    by (simp add: GetSpentTxDetails_def iologged_def QueryRow_def run_def first_row_None)
next
  case (Inr r)
  then have "spent_rows (c_db w) txid vout \<noteq> []" using first_row_Some [OF Inr] by auto
  then show ?thesis
    using Inr assms(2) spent_rows_Nil [OF assms(1), of txid vout]
    by (simp add: GetSpentTxDetails_def iologged_def QueryRow_def run_def)
qed

definition tx_of :: "db \<Rightarrow> output_row \<Rightarrow> tx_row" where
  "tx_of s r = hd (filter (\<lambda>t. t_id t = o_transaction_id r) (txs s))"

lemma tx_of:
  assumes "wf_db s" "r \<in> set (outputs s)"
  shows "filter (\<lambda>t. t_id t = o_transaction_id r) (txs s) = [tx_of s r]"
    "tx_of s r \<in> set (txs s)" "t_id (tx_of s r) = o_transaction_id r"
proof -
  obtain t where t: "t \<in> set (txs s)" "t_id t = o_transaction_id r"
    using wf_dbD(5) [OF assms] by blast
  then show "filter (\<lambda>t. t_id t = o_transaction_id r) (txs s) = [tx_of s r]"
    using filter_unique [OF wf_dbD(2) [OF assms(1)] t(1), of "\<lambda>t. True"] by (simp add: tx_of_def)
  then have "tx_of s r \<in> set (filter (\<lambda>t. t_id t = o_transaction_id r) (txs s))" by simp
  then show "tx_of s r \<in> set (txs s)" "t_id (tx_of s r) = o_transaction_id r" by auto
qed

text \<open>The outputs paid to the addresses that no stored input spends.\<close>

definition unspent :: "string list \<Rightarrow> db \<Rightarrow> output_row list" where
  "unspent addrs s = filter (\<lambda>r. o_address r \<in> set addrs \<and> \<not> is_spent s (t_txid (tx_of s r)) (o_vout r))
     (outputs s)"

lemma utxo_rows_unspent:
  assumes "wf_db s"
  shows "utxo_rows fmt now addrs s =
    map (\<lambda>r. utxo_row fmt now r (tx_of s r) (hd (left_block s (tx_of s r)))) (unspent addrs s)"
proof -
  have "concat (map (\<lambda>t. map (utxo_row fmt now r t) (left_block s t))
        (filter (\<lambda>t. t_id t = o_transaction_id r \<and> \<not> is_spent s (t_txid t) (o_vout r)) (txs s))) =
      (if is_spent s (t_txid (tx_of s r)) (o_vout r) then []
       else [utxo_row fmt now r (tx_of s r) (hd (left_block s (tx_of s r)))])"
    (is "concat (map ?g ?ts) = _") if "r \<in> set (outputs s)" for r
  proof -
    have "?ts = filter (\<lambda>t. \<not> is_spent s (t_txid t) (o_vout r)) [tx_of s r]"
      unfolding tx_of(1) [OF assms that, symmetric] by (simp add: conj_commute)
    moreover obtain b where "left_block s (tx_of s r) = [b]" using left_block_single [OF assms] .
    ultimately show ?thesis by simp
  qed
  then have "concat (map (\<lambda>r. concat (map (\<lambda>t. map (utxo_row fmt now r t) (left_block s t))
        (filter (\<lambda>t. t_id t = o_transaction_id r \<and> \<not> is_spent s (t_txid t) (o_vout r)) (txs s))))
      (filter (\<lambda>r. o_address r \<in> set addrs) rs)) =
    map (\<lambda>r. utxo_row fmt now r (tx_of s r) (hd (left_block s (tx_of s r))))
      (filter (\<lambda>r. o_address r \<in> set addrs \<and> \<not> is_spent s (t_txid (tx_of s r)) (o_vout r)) rs)"
    if "set rs \<subseteq> set (outputs s)" for rs
    using that by (induction rs) simp_all
  then show ?thesis unfolding utxo_rows_def unspent_def by blast
qed

lemma tx_of_inj:
  assumes "wf_db s" "r \<in> set (outputs s)" "r' \<in> set (outputs s)"
    "t_txid (tx_of s r) = t_txid (tx_of s r')" "o_vout r = o_vout r'"
  shows "r = r'"
proof -
  have "tx_of s r = tx_of s r'"
    using wf_dbD(3) [OF assms(1)] tx_of(2) [OF assms(1)] assms(2-4)
    by (metis distinct_map inj_onD)
  then have "out_key r = out_key r'"
    using tx_of(3) [OF assms(1,2)] tx_of(3) [OF assms(1,3)] assms(5) by simp
  then show ?thesis
    using wf_dbD(6) [OF assms(1)] assms(2,3) unfolding distinct_map by (blast dest: inj_onD)
qed

text \<open>
  C7: the unspent outputs are exactly those without spending details.  On a well formed database,
  whatever order the server returns the rows in, \<open>GetUtxosByAddrs\<close> lists every output paid to the
  addresses for which \<open>GetSpentTxDetails\<close> finds nothing, once, and no other; the amounts are those of
  the outputs, so their sum is the balance.
\<close>

theorem utxos_are_unspent_outputs:
  assumes "wf_db (c_db w)" "p_outcome (next_plan w) = Done"
  shows "\<exists>us. fst (GetUtxosByAddrs d addrs w) = Inr us \<and>
    distinct (map (\<lambda>u. (u_TxID u, u_Vout u)) us) \<and>
    (\<lambda>u. (u_TxID u, u_Vout u)) ` set us =
      {(t_txid (tx_of (c_db w) r), o_vout r) | r. r \<in> set (outputs (c_db w)) \<and> o_address r \<in> set addrs \<and>
         fst (GetSpentTxDetails d (t_txid (tx_of (c_db w) r)) (o_vout r) w) = Inr None} \<and>
    (\<Sum>u\<leftarrow>us. u_SatAmount u) = (\<Sum>r\<leftarrow>unspent addrs (c_db w). o_amount r)"
proof -
  let ?s = "c_db w"
  let ?row = "\<lambda>r. utxo_row (c_fmt w) (c_now w) r (tx_of ?s r) (hd (left_block ?s (tx_of ?s r)))"
  let ?us = "reorder (p_order (next_plan w)) (map ?row (unspent addrs ?s))"
  let ?k = "\<lambda>r. (t_txid (tx_of ?s r), o_vout r)"
  have us: "fst (GetUtxosByAddrs d addrs w) = Inr ?us"
    using assms(2) by (simp add: GetUtxosByAddrs_def iowrapf_def Query_def Let_def utxo_rows_unspent [OF assms(1)])
  have key: "(u_TxID (?row r), u_Vout (?row r)) = ?k r" "u_SatAmount (?row r) = o_amount r" for r
    by (simp_all add: utxo_row_def)
  have dist: "distinct (unspent addrs ?s)"
    using wf_dbD(6) [OF assms(1)] by (simp add: unspent_def distinct_map)
  have "inj_on ?k (set (unspent addrs ?s))"
    using tx_of_inj [OF assms(1)] by (auto simp: inj_on_def unspent_def)
  then have dk: "distinct (map ?k (unspent addrs ?s))"
    using dist by (simp add: distinct_map)
  have mk: "mset (map (\<lambda>u. (u_TxID u, u_Vout u)) ?us) = mset (map ?k (unspent addrs ?s))"
    by (simp add: image_mset.compositionality comp_def key)
  have "distinct (map (\<lambda>u. (u_TxID u, u_Vout u)) ?us)"
    using dk unfolding mset_eq_imp_distinct_iff [OF mk] .
  moreover have "(\<lambda>u. (u_TxID u, u_Vout u)) ` set ?us = ?k ` set (unspent addrs ?s)"
    by (simp add: image_image key)
  moreover have "?k ` set (unspent addrs ?s) = {?k r | r. r \<in> set (outputs ?s) \<and> o_address r \<in> set addrs \<and>
      fst (GetSpentTxDetails d (t_txid (tx_of ?s r)) (o_vout r) w) = Inr None}"
    unfolding GetSpentTxDetails_None [OF assms] by (auto simp: unspent_def)
  moreover have "(\<Sum>u\<leftarrow>?us. u_SatAmount u) = (\<Sum>r\<leftarrow>unspent addrs ?s. o_amount r)"
  proof -
    have "mset (map u_SatAmount ?us) = mset (map o_amount (unspent addrs ?s))"
      by (simp add: image_mset.compositionality comp_def key)
    then show ?thesis by (rule sum_list_mset_eq)
  qed
  ultimately show ?thesis using us by (intro exI [of _ ?us]) simp
qed

section \<open>A small database\<close>

text \<open>One block with two transactions: the first pays twice to A, the second spends the first of these.\<close>

definition sample_row :: "int \<Rightarrow> string \<Rightarrow> tx_row" where
  "sample_row i txid = \<lparr>t_id = i, t_index = Some (i - 1), t_block_id = Some 1, t_txid = txid,
     t_hash = txid, t_version = 1, t_size = 1, t_v_size = 1, t_weight = 4, t_locktime = 0, t_raw = []\<rparr>"

definition sample_out_row :: "int \<Rightarrow> int \<Rightarrow> int \<Rightarrow> string \<Rightarrow> int \<Rightarrow> output_row" where
  "sample_out_row i tid n a sats = \<lparr>o_id = i, o_transaction_id = tid, o_vout = n, o_amount = sats,
     o_asm = [], o_hex = [], o_req_sigs = 1, o_type = ''pubkeyhash'', o_address = a, o_addresses = Some [a]\<rparr>"

definition sample_db :: db where
  "sample_db = empty_db
    \<lparr>blocks := [new_block_row 1 (hdr ''g'' 0 ''x'') 0 0], block_seq := 2,
     txs := [sample_row 1 ''p'', sample_row 2 ''q''], tx_seq := 3,
     inputs := [\<lparr>i_id = 1, i_transaction_id = 2, i_vin = 0, i_spent_txid = ''p'', i_spent_vout = 0,
       i_asm = [], i_hex = [], i_sequence = 0, i_witness = None, i_coinbase = []\<rparr>], input_seq := 2,
     outputs := [sample_out_row 1 1 0 ''A'' 5, sample_out_row 2 1 1 ''A'' 7, sample_out_row 3 2 0 ''B'' 4],
     output_seq := 4\<rparr>"

definition sample_conn :: "plan list \<Rightarrow> conn" where
  "sample_conn ps = \<lparr>c_db = sample_db, c_plans = ps, c_now = 0, c_fmt = (\<lambda>t. []), c_live = None\<rparr>"

definition sample_handle :: Database where
  "sample_handle = \<lparr>prefix = ''btc'', sem = 1, d_retry = \<lparr>Attempts = 2, Sleep = 1\<rparr>, d_timeout = 1\<rparr>"

lemma sample_db_wf: "wf_db sample_db"
  by (simp add: wf_defs sample_db_def sample_row_def sample_out_row_def new_block_row_def hdr_def
      uniq_keys_def one_active_def)

theorem address_history_witness:
  "history [''A''] sample_db = [''q'', ''p''] \<and>
   fst (GetTxIDsByAddresses sample_handle [''A''] (Some 1) (Some 1) (sample_conn [])) = Inr [''p''] \<and>
   fst (GetTotalTxsByAddresses sample_handle [''A''] (sample_conn [])) = Inr 2"
proof -
  have "p_outcome (next_plan (sample_conn [])) = Done" "c_db (sample_conn []) = sample_db"
    by (simp_all add: sample_conn_def next_plan_def)
  moreover have h: "history [''A''] sample_db = [''q'', ''p'']" by code_simp
  ultimately show ?thesis
    using address_history [of "sample_conn []" sample_handle "[''A'']" "Some 1" "Some 1"] sample_db_wf
    by (simp add: limited_def)
qed

theorem utxos_are_unspent_outputs_witness:
  "\<exists>us. fst (GetUtxosByAddrs sample_handle [''A''] (sample_conn [])) = Inr us \<and>
     (\<Sum>u\<leftarrow>us. u_SatAmount u) = 7"
proof -
  have "p_outcome (next_plan (sample_conn [])) = Done" "c_db (sample_conn []) = sample_db"
    by (simp_all add: sample_conn_def next_plan_def)
  moreover have "(\<Sum>r\<leftarrow>unspent [''A''] sample_db. o_amount r) = 7" by code_simp
  ultimately show ?thesis
    using utxos_are_unspent_outputs [of "sample_conn []" sample_handle "[''A'']"] sample_db_wf by auto
qed

section \<open>Broken result sets and unordered pages\<close>




end
