(* ===== verification/Postgres_Write.thy ===== *)
theory Postgres_Write
  imports Postgres_Read
begin

text \<open>
  Writing through an unreliable connection.  A locale states what makes a stored procedure safe to
  retry: an error leaves the database alone and a repeated success changes nothing.  Inside it a
  retried call is shown to take effect at most once and to succeed as soon as one attempt gets
  through.  \<open>transaction_insert\<close>, \<open>delete_orphans\<close> and \<open>delete_invalid_txs\<close> satisfy the laws;
  \<open>block_insert\<close> does not.
\<close>

section \<open>Retried calls\<close>

definition outcome_at :: "conn \<Rightarrow> nat \<Rightarrow> outcome" where
  "outcome_at w k = (if k < length (c_plans w) then p_outcome (c_plans w ! k) else Done)"

lemma next_outcome: "p_outcome (next_plan w) = outcome_at w 0"
  by (auto simp: next_plan_def outcome_at_def split: list.splits)

lemma outcome_at_Suc: "c_plans w' = tl (c_plans w) \<Longrightarrow> outcome_at w' k = outcome_at w (Suc k)"
  by (cases "c_plans w") (auto simp: outcome_at_def)

locale retried_call =
  fixes inv :: "db \<Rightarrow> bool" and call :: "db \<Rightarrow> 'a result \<times> db"
  assumes failed: "inv s \<Longrightarrow> call s = (Inl e, s') \<Longrightarrow> s' = s"
    and again: "inv s \<Longrightarrow> call s = (Inr x, s') \<Longrightarrow> inv s' \<and> call s' = (Inr x, s')"
begin

lemma call_twice:
  assumes "inv s" "s' \<in> {s, snd (call s)}"
  shows "call s' = call s"
proof (cases "s' = s")
  case False
  then have s': "s' = snd (call s)" using assms(2) by simp
  obtain r t where rt: "call s = (r, t)" by fastforce
  then show ?thesis
  proof (cases r)
    case (Inl e)
    then show ?thesis using failed [OF assms(1), of e t] rt s' by simp
  next
    case (Inr x)
    then show ?thesis using again [OF assms(1), of x t] rt s' by simp
  qed
qed simp

lemma attempt:
  assumes "inv s" "c_db w \<in> {s, snd (call s)}" "iowrapf msg (Exec (\<lambda>p. call)) w = (r, w')"
  shows "c_db w' \<in> {s, snd (call s)}" "c_plans w' = tl (c_plans w)"
    "r = Inr x \<Longrightarrow> call s = (Inr x, c_db w')"
    "outcome_at w 0 = Done \<Longrightarrow> r = wrapf msg (fst (call s))"
    "outcome_at w 0 \<noteq> Done \<Longrightarrow> \<exists>e. r = Inl (Err e)"
proof -
  have c: "call (c_db w) = call s" by (rule call_twice [OF assms(1,2)])
  show "c_db w' \<in> {s, snd (call s)}" "c_plans w' = tl (c_plans w)"
    "r = Inr x \<Longrightarrow> call s = (Inr x, c_db w')"
    "outcome_at w 0 = Done \<Longrightarrow> r = wrapf msg (fst (call s))"
    "outcome_at w 0 \<noteq> Done \<Longrightarrow> \<exists>e. r = Inl (Err e)"
    using assms(2,3) c
    by (auto simp: iowrapf_def Exec_def run_def next_outcome split: outcome.splits prod.splits)
qed

lemma exactly_once:
  assumes "inv (c_db w)" "Simple attempts sleep (iowrapf msg (Exec (\<lambda>p. call))) w = (r, w')"
  shows "c_db w' \<in> {c_db w, snd (call (c_db w))} \<and>
    (\<forall>x. r = Inr x \<longrightarrow> call (c_db w) = (Inr x, c_db w'))"
proof -
  let ?P = "\<lambda>w0. c_db w0 \<in> {c_db w, snd (call (c_db w))}"
  have "?P w' \<and> (\<exists>w0. ?P w0 \<and> iowrapf msg (Exec (\<lambda>p. call)) w0 = (r, w'))"
    by (rule try_upto_inv [where w = w]) (use attempt(1) [OF assms(1)] assms(2) in \<open>auto simp: Simple_try_upto\<close>)
  then show ?thesis using attempt(3) [OF assms(1)] by blast
qed

lemma gets_through:
  assumes "inv s" "call s = (Inr x, s')" "c_db w \<in> {s, s'}" "k \<le> n" "outcome_at w k = Done"
  shows "\<exists>w'. try_upto n (iowrapf msg (Exec (\<lambda>p. call))) w = (Inr x, w')"
  using assms(3-5)
proof (induction n arbitrary: k w)
  case 0
  obtain r w' where a: "iowrapf msg (Exec (\<lambda>p. call)) w = (r, w')" by fastforce
  then have "r = Inr x" using attempt(4) [OF assms(1) _ a] 0 assms(2) by simp
  then show ?case by (simp add: a)
next
  case (Suc n)
  obtain r w' where a: "iowrapf msg (Exec (\<lambda>p. call)) w = (r, w')" by fastforce
  have db: "c_db w \<in> {s, snd (call s)}" using Suc.prems assms(2) by simp
  note a' = attempt [OF assms(1) db a]
  show ?case
  proof (cases "outcome_at w 0 = Done")
    case True
    then have "r = Inr x" using a'(4) assms(2) by simp
    then show ?thesis by (simp add: a)
  next
    case False
    then obtain e where e: "r = Inl (Err e)" using a'(5) by blast
    obtain j where j: "k = Suc j" using False Suc.prems(3) by (cases k) auto
    then have "\<exists>w''. try_upto n (iowrapf msg (Exec (\<lambda>p. call))) w' = (Inr x, w'')"
      using Suc.prems a'(1) assms(2) outcome_at_Suc [OF a'(2)] by (intro Suc.IH [of w' j]) auto
    then show ?thesis by (simp add: a e)
  qed
qed

lemma live:
  assumes "inv (c_db w)" "call (c_db w) = (Inr x, s')" "k \<le> nat (i64 (attempts - 1))"
    "outcome_at w k = Done"
  shows "\<exists>w'. Simple attempts sleep (iowrapf msg (Exec (\<lambda>p. call))) w = (Inr x, w') \<and> c_db w' = s'"
proof -
  obtain w' where w': "Simple attempts sleep (iowrapf msg (Exec (\<lambda>p. call))) w = (Inr x, w')"
    using gets_through [OF assms(1,2) _ assms(3,4), of msg] by (auto simp: Simple_try_upto)
  then have "call (c_db w) = (Inr x, c_db w')" using exactly_once [OF assms(1) w'] by blast
  then have "c_db w' = s'" unfolding assms(2) by simp
  then show ?thesis by (intro exI [of _ w'] conjI w')
qed

end

section \<open>The procedures that are safe to retry\<close>

lemma transaction_insert_failed:
  assumes "transaction_insert bid t raw idx s = (Inl e, s')"
  shows "s' = s"
  using assms by (cases rule: transaction_insert_cases) blast+

interpretation insert_tx: retried_call "\<lambda>s. wf_db s \<and> in_i32 idx" "transaction_insert bid t raw idx"
proof
  fix s x s'
  assume ok: "wf_db s \<and> in_i32 idx" and run: "transaction_insert bid t raw idx s = (Inr x, s')"
  then have run': "transaction_insert bid t raw idx s = (Inr (), s')" by simp
  show "(wf_db s' \<and> in_i32 idx) \<and> transaction_insert bid t raw idx s' = (Inr x, s')"
    using ok transaction_insert_wf [OF run'] transaction_insert_idempotent [OF _ _ run'] by simp
qed (rule transaction_insert_failed)

lemma delete_orphans_again: "delete_orphans (snd (delete_orphans s)) = (Inr (), snd (delete_orphans s))"
proof -
  let ?s = "snd (delete_orphans s)"
  have t: "txs ?s = filter (\<lambda>t. t_id t \<notin> set (orphan_ids s)) (txs s)" "blocks ?s = blocks s"
    by (simp_all add: delete_orphans_def Let_def)
  have "orphan_ids ?s = []"
    unfolding orphan_ids_def t by (auto simp: filter_empty_conv in_orphan_def t orphan_ids_def)
  then show ?thesis by (simp add: delete_orphans_def [of ?s] Let_def)
qed

lemma delete_orphans_ok: "delete_orphans s = (r, s') \<longleftrightarrow> r = Inr () \<and> s' = snd (delete_orphans s)"
  by (auto simp: delete_orphans_def Let_def)

interpretation delete_orphans: retried_call "\<lambda>s. True" delete_orphans
  by unfold_locales (simp_all add: delete_orphans_ok delete_orphans_again)

lemma delete_invalid_txs_again:
  "delete_invalid_txs ids (snd (delete_invalid_txs ids s)) = (Inr (), snd (delete_invalid_txs ids s))"
proof -
  let ?s = "snd (delete_invalid_txs ids s)"
  let ?gone = "\<lambda>t. t_id t \<in> set ids \<and> t_block_id t = None"
  have t: "txs ?s = filter (\<lambda>t. \<not> ?gone t) (txs s)"
    by (simp add: delete_invalid_txs_def Let_def)
  then have "filter ?gone (txs ?s) = []" "filter (\<lambda>t. \<not> ?gone t) (txs ?s) = txs ?s"
    unfolding t by (simp_all add: filter_empty_conv del: de_Morgan_conj)
  then show ?thesis unfolding delete_invalid_txs_def [of ids ?s] Let_def by simp
qed

lemma delete_invalid_txs_ok:
  "delete_invalid_txs ids s = (r, s') \<longleftrightarrow> r = Inr () \<and> s' = snd (delete_invalid_txs ids s)"
  by (auto simp: delete_invalid_txs_def Let_def)

interpretation delete_invalid: retried_call "\<lambda>s. True" "delete_invalid_txs ids"
  by unfold_locales (simp_all add: delete_invalid_txs_ok delete_invalid_txs_again)

lemma InsertTx_retries:
  assumes "txObj t = Inr obj"
  shows "InsertTx d t txIndex blockID w = Simple (Attempts (d_retry d)) 3
    (iowrapf ''failed to insert transaction''
      (Exec (\<lambda>p. transaction_insert blockID obj (tx_Hex t) txIndex))) w"
  using assms unfolding InsertTx_def by simp

text \<open>
  C2: a transaction is inserted exactly once.  Whatever happens to the connection during the
  attempts, the database is afterwards either unchanged or as after one undisturbed call of
  \<open>transaction_insert\<close>, and it is the latter when \<open>InsertTx\<close> reports success.
\<close>

theorem InsertTx_exactly_once:
  assumes "wf_db (c_db w)" "in_i32 txIndex" "txObj t = Inr obj"
    "InsertTx d t txIndex blockID w = (r, w')"
  shows "c_db w' \<in> {c_db w, snd (transaction_insert blockID obj (tx_Hex t) txIndex (c_db w))} \<and>
    (r = Inr () \<longrightarrow> transaction_insert blockID obj (tx_Hex t) txIndex (c_db w) = (Inr (), c_db w'))"
  using insert_tx.exactly_once [OF _ assms(4) [unfolded InsertTx_retries [OF assms(3)]]] assms(1,2)
  by blast

text \<open>
  C20: one attempt that gets through is enough.  If the stored procedure accepts the transaction and
  the connection survives at least one of the configured attempts, \<open>InsertTx\<close> succeeds.
\<close>

theorem InsertTx_succeeds:
  assumes "wf_db (c_db w)" "in_i32 txIndex" "txObj t = Inr obj"
    "transaction_insert blockID obj (tx_Hex t) txIndex (c_db w) = (Inr (), s')"
    "int k < max 1 (Attempts (d_retry d))" "in_i64 (Attempts (d_retry d))" "outcome_at w k = Done"
  shows "\<exists>w'. InsertTx d t txIndex blockID w = (Inr (), w') \<and> c_db w' = s'"
proof -
  have "k \<le> nat (i64 (Attempts (d_retry d) - 1))"
  proof (cases "Attempts (d_retry d) \<le> 1")
    case True
    then show ?thesis using assms(5) by simp
  next
    case False
    then have "i64 (Attempts (d_retry d) - 1) = Attempts (d_retry d) - 1"
      using assms(6) by (intro i64_id) (simp add: in_i64_def)
    then show ?thesis using assms(5) False by simp
  qed
  from insert_tx.live [OF _ assms(4) this assms(7), where msg = "''failed to insert transaction''" and sleep = 3]
  show ?thesis unfolding InsertTx_retries [OF assms(3)] using assms(1,2) by simp
qed

section \<open>Reading back\<close>

text \<open>Texts of witnesses that the reader splits correctly.\<close>

definition clean_witness :: "string list \<Rightarrow> bool" where
  "clean_witness ws = list_all (list_all (\<lambda>c. c \<notin> set ''[] ,'' \<and> c \<noteq> CHR 0x22)) ws"

lemma witness_of_json:
  assumes "clean_witness ws"
  shows "witness_of (json_string_array ws) = ws"
proof (cases ws)
  case Nil
  then show ?thesis by (simp add: witness_of_def json_string_array_def)
next
  case (Cons x xs)
  let ?f = "filter (\<lambda>c. c \<notin> set ''[] '' \<and> c \<noteq> CHR 0x22)"
  have clean: "?f x = x" if "x \<in> set ws" for x
    using assms that by (auto simp: clean_witness_def list_all_iff filter_id_conv)
  have join: "?f (Join (map json_quote ys) '', '') = Join ys '',''" if "set ys \<subseteq> set ws" for ys
    using that
  proof (induction ys rule: induct_list012)
    case (2 y)
    then show ?case using clean [of y] by (simp add: json_quote_def)
  next
    case (3 y z zs)
    then show ?case using clean [of y] by (simp add: json_quote_def)
  qed simp
  have "?f (json_string_array ws) = Join ws '',''"
    unfolding json_string_array_def using join [of ws] by simp
  moreover have "json_string_array ws \<noteq> ''[]''"
    unfolding Cons by (cases xs) (simp_all add: json_string_array_def json_quote_def)
  moreover have "Split (Join ws '','') CHR '','' = ws"
    using assms Cons by (intro Split_Join) (auto simp: clean_witness_def list_all_iff)
  ultimately show ?thesis by (simp add: witness_of_def)
qed

definition stored_input :: "Input \<Rightarrow> Input" where
  "stored_input v = v\<lparr>in_TxInWitness := map_option (\<lambda>ws. witness_of (json_string_array ws)) (in_TxInWitness v)\<rparr>"

lemma scan_new_input: "scan_input (new_input_row i tid v) = stored_input v"
  by (simp add: scan_input_def new_input_row_def stored_input_def option.map_comp comp_def)

lemma scan_new_output: "scan_output (new_output_row i tid v) = v\<lparr>out_Addresses := []\<rparr>"
  by (simp add: scan_output_def new_output_row_def)

lemma new_row_sel:
  "i_transaction_id (new_input_row i tid v) = tid" "i_vin (new_input_row i tid v) = in_Vin v"
  "o_transaction_id (new_output_row i tid u) = tid" "o_vout (new_output_row i tid u) = out_Vout u"
  by (simp_all add: new_input_row_def new_output_row_def)

lemma input_insert_all:
  assumes "input_insert tid vs d = (Inr (), d')" "distinct (map in_Vin vs)"
    "\<And>r. r \<in> set (inputs d) \<Longrightarrow> i_transaction_id r = tid \<Longrightarrow> i_vin r \<notin> in_Vin ` set vs"
  shows "\<exists>new. inputs d' = inputs d @ new \<and> (\<forall>r \<in> set new. i_transaction_id r = tid) \<and>
    map scan_input new = map stored_input vs"
  using assms
proof (induction tid vs d rule: input_insert.induct)
  case (2 tid v vs d)
  let ?n = "new_input_row (input_seq d) tid v"
  let ?d = "d\<lparr>inputs := inputs d @ [?n], input_seq := input_seq d + 1\<rparr>"
  have ok: "\<not> (\<not> in_i32 (in_Vin v) \<or> \<not> in_i32 (in_SpentVout v))"
    using "2.prems"(1) by (auto split: if_splits)
  have new: "\<not> (\<exists>r \<in> set (inputs d). i_transaction_id r = tid \<and> i_vin r = in_Vin v)"
    using "2.prems"(3) by auto
  have run: "input_insert tid vs ?d = (Inr (), d')"
    using "2.prems"(1) by (simp only: input_insert.simps ok new if_False)
  have "i_vin r \<notin> in_Vin ` set vs" if "r \<in> set (inputs ?d)" "i_transaction_id r = tid" for r
  proof (cases "r = ?n")
    case True
    then show ?thesis using "2.prems"(2) by (simp add: new_row_sel)
  next
    case False
    then show ?thesis using that "2.prems"(3) by auto
  qed
  then have "\<exists>new. inputs d' = inputs ?d @ new \<and> (\<forall>r \<in> set new. i_transaction_id r = tid) \<and>
      map scan_input new = map stored_input vs"
    using "2.prems"(2) by (intro "2.IH"(2) [OF ok new run]) auto
  then obtain new where "inputs d' = inputs d @ ?n # new" "\<forall>r \<in> set new. i_transaction_id r = tid"
    "map scan_input new = map stored_input vs" by auto
  then show ?case by (intro exI [of _ "?n # new"]) (simp add: scan_new_input new_row_sel)
qed simp

lemma output_insert_all:
  assumes "output_insert tid vs d = (Inr (), d')" "distinct (map out_Vout vs)"
    "\<And>r. r \<in> set (outputs d) \<Longrightarrow> o_transaction_id r = tid \<Longrightarrow> o_vout r \<notin> out_Vout ` set vs"
  shows "\<exists>new. outputs d' = outputs d @ new \<and> (\<forall>r \<in> set new. o_transaction_id r = tid) \<and>
    map scan_output new = map (\<lambda>v. v\<lparr>out_Addresses := []\<rparr>) vs"
  using assms
proof (induction tid vs d rule: output_insert.induct)
  case (2 tid v vs d)
  let ?n = "new_output_row (output_seq d) tid v"
  let ?d = "d\<lparr>outputs := outputs d @ [?n], output_seq := output_seq d + 1\<rparr>"
  have ok: "\<not> (\<not> in_i32 (out_Vout v) \<or> \<not> in_i32 (out_ReqSigs v))"
    using "2.prems"(1) by (auto split: if_splits)
  have new: "\<not> (\<exists>r \<in> set (outputs d). o_transaction_id r = tid \<and> o_vout r = out_Vout v)"
    using "2.prems"(3) by auto
  have run: "output_insert tid vs ?d = (Inr (), d')"
    using "2.prems"(1) by (simp only: output_insert.simps ok new if_False)
  have "o_vout r \<notin> out_Vout ` set vs" if "r \<in> set (outputs ?d)" "o_transaction_id r = tid" for r
  proof (cases "r = ?n")
    case True
    then show ?thesis using "2.prems"(2) by (simp add: new_row_sel)
  next
    case False
    then show ?thesis using that "2.prems"(3) by auto
  qed
  then have "\<exists>new. outputs d' = outputs ?d @ new \<and> (\<forall>r \<in> set new. o_transaction_id r = tid) \<and>
      map scan_output new = map (\<lambda>v. v\<lparr>out_Addresses := []\<rparr>) vs"
    using "2.prems"(2) by (intro "2.IH"(2) [OF ok new run]) auto
  then obtain new where "outputs d' = outputs d @ ?n # new" "\<forall>r \<in> set new. o_transaction_id r = tid"
    "map scan_output new = map (\<lambda>v. v\<lparr>out_Addresses := []\<rparr>) vs" by auto
  then show ?case by (intro exI [of _ "?n # new"]) (simp add: scan_new_output new_row_sel)
qed simp

lemma input_objs_vins:
  "distinct (map in_Vin (input_objs i vs)) \<and> (\<forall>v \<in> set (input_objs i vs). i \<le> in_Vin v)"
proof (induction vs arbitrary: i)
  case (Cons v vs)
  then show ?case using Cons.IH [of "i + 1"] by force
qed simp

lemma stored_input_id:
  assumes "\<forall>v \<in> set vs. \<forall>ws. vin_TxInWitness v = Some ws \<longrightarrow> clean_witness ws"
  shows "map stored_input (input_objs i vs) = input_objs i vs"
  using assms
proof (induction vs arbitrary: i)
  case (Cons v vs)
  have "map_option (\<lambda>ws. witness_of (json_string_array ws)) (vin_TxInWitness v) = vin_TxInWitness v"
    using Cons.prems witness_of_json by (cases "vin_TxInWitness v") auto
  then show ?case using Cons by (simp add: stored_input_def)
qed simp

lemma output_obj_vout: "output_obj v = Inr u \<Longrightarrow> out_Vout u = vout_N v"
  by (auto simp: output_obj_def Let_def)

lemma txObj_Inr:
  assumes "txObj t = Inr obj"
  shows "td_txid obj = tx_TxID t" "td_hash obj = tx_Hash t" "td_inputs obj = input_objs 0 (tx_Vins t)"
    "td_version obj = tx_Version t" "td_size obj = tx_Size t"
    "map out_Vout (td_outputs obj) = map vout_N (tx_Vouts t)"
proof -
  obtain outs where "rmapM output_obj (tx_Vouts t) = Inr outs" "td_outputs obj = outs"
    using assms by (auto simp: txObj_def)
  then have "list_all2 (\<lambda>v u. output_obj v = Inr u) (tx_Vouts t) (td_outputs obj)"
    by (simp add: rmapM_Inr_iff)
  then have "list_all2 (\<lambda>v u. out_Vout u = vout_N v) (tx_Vouts t) (td_outputs obj)"
    by (rule list_all2_mono) (rule output_obj_vout)
  then show "map out_Vout (td_outputs obj) = map vout_N (tx_Vouts t)"
    by (induction rule: list_all2_induct) simp_all
qed (use assms in \<open>auto simp: txObj_def\<close>)

text \<open>The rows a new transaction adds.\<close>

lemma transaction_insert_new:
  assumes "wf_db s" "transaction_insert bid obj raw idx s = (Inr (), s')"
    "td_txid obj \<notin> t_txid ` set (txs s)"
    "distinct (map in_Vin (td_inputs obj))" "distinct (map out_Vout (td_outputs obj))"
  obtains lt where "new_tx_row (tx_seq s) (opt_of idx) (opt_of bid) obj raw lt \<in> set (txs s')"
    "map scan_input (filter (\<lambda>r. i_transaction_id r = tx_seq s) (inputs s')) =
       map stored_input (td_inputs obj)"
    "map scan_output (filter (\<lambda>r. o_transaction_id r = tx_seq s) (outputs s')) =
       map (\<lambda>v. v\<lparr>out_Addresses := []\<rparr>) (td_outputs obj)"
  using assms(2)
proof (cases rule: transaction_insert_cases)
  case (mined r)
  then show thesis using assms(3) by (metis imageI)
next
  case (inserted lt d2)
  let ?t = "new_tx_row (tx_seq s) (opt_of idx) (opt_of bid) obj raw lt"
  let ?d1 = "s\<lparr>txs := txs s @ [?t], tx_seq := tx_seq s + 1\<rparr>"
  have old_i: "i_transaction_id r \<noteq> tx_seq s" if "r \<in> set (inputs s)" for r
    using assms(1) wf_dbD(4) [OF assms(1) that] by (force simp: wf_defs)
  have old_o: "o_transaction_id r \<noteq> tx_seq s" if "r \<in> set (outputs s)" for r
    using assms(1) wf_dbD(5) [OF assms(1) that] by (force simp: wf_defs)
  obtain k ni where d2: "d2 = ?d1\<lparr>inputs := inputs ?d1 @ ni, input_seq := k\<rparr>"
    using input_insert_grows [OF inserted(5)] by blast
  have "\<exists>new. inputs d2 = inputs ?d1 @ new \<and> (\<forall>r \<in> set new. i_transaction_id r = tx_seq s) \<and>
      map scan_input new = map stored_input (td_inputs obj)"
    using old_i by (intro input_insert_all [OF inserted(5) assms(4)]) auto
  then obtain new where new: "inputs d2 = inputs s @ new" "\<forall>r \<in> set new. i_transaction_id r = tx_seq s"
    "map scan_input new = map stored_input (td_inputs obj)" by auto
  obtain k' no where d': "s' = d2\<lparr>outputs := outputs d2 @ no, output_seq := k'\<rparr>"
    using output_insert_grows [OF inserted(6)] by blast
  have "outputs d2 = outputs s" unfolding d2 by simp
  then have "\<exists>new. outputs s' = outputs s @ new \<and> (\<forall>r \<in> set new. o_transaction_id r = tx_seq s) \<and>
      map scan_output new = map (\<lambda>v. v\<lparr>out_Addresses := []\<rparr>) (td_outputs obj)"
    using old_o output_insert_all [OF inserted(6) assms(5)] by simp
  then obtain new' where new': "outputs s' = outputs s @ new'" "\<forall>r \<in> set new'. o_transaction_id r = tx_seq s"
    "map scan_output new' = map (\<lambda>v. v\<lparr>out_Addresses := []\<rparr>) (td_outputs obj)" by blast
  have fi: "filter (\<lambda>r. i_transaction_id r = tx_seq s) (inputs s') = new"
  proof -
    have "inputs s' = inputs s @ new" using new(1) unfolding d' by simp
    moreover have "filter (\<lambda>r. i_transaction_id r = tx_seq s) (inputs s) = []"
      using old_i by (simp add: filter_empty_conv)
    ultimately show ?thesis using new(2) by (simp add: filter_id_conv)
  qed
  have fo: "filter (\<lambda>r. o_transaction_id r = tx_seq s) (outputs s') = new'"
  proof -
    have "filter (\<lambda>r. o_transaction_id r = tx_seq s) (outputs s) = []"
      using old_o by (simp add: filter_empty_conv)
    then show ?thesis using new' by (simp add: filter_id_conv)
  qed
  have "?t \<in> set (txs s')" unfolding d' d2 by simp
  then show thesis using that [of lt] new(3) new'(3) unfolding fi fo by blast
qed (use assms(3) in auto)

lemma undisturbed:
  assumes "c_plans w = []"
  shows "next_plan w = \<lparr>p_outcome = Done, p_order = [], p_pick = hd\<rparr>"
    "w\<lparr>c_db := c_db w, c_plans := tl (c_plans w)\<rparr> = w" "w\<lparr>c_plans := tl (c_plans w)\<rparr> = w"
  using assms by (simp_all add: next_plan_def)

lemma reorder_default [simp]: "reorder [] rs = rs"
  by (simp add: reorder_def)

lemma GetTxByTxID_row:
  assumes "wf_db (c_db w)" "c_plans w = []" "t \<in> set (txs (c_db w))" "left_block (c_db w) t = [b]"
  shows "fst (GetTxByTxID d (t_txid t) w) = Inr ((scan_tx (c_fmt w) (c_now w) (t, b))
    \<lparr>dtx_Inputs := map scan_input (filter (\<lambda>r. i_transaction_id r = t_id t) (inputs (c_db w))),
     dtx_Outputs := map scan_output (filter (\<lambda>r. o_transaction_id r = t_id t) (outputs (c_db w)))\<rparr>)"
proof -
  have "QueryRow (\<lambda>p s. (first_row (tx_rows s (t_txid t)) p, s)) w = (Inr (t, b), w)"
    unfolding QueryRow_def run_def
    by (simp add: undisturbed [OF assms(2)] tx_rows_single [OF assms(1,3,4)])
  moreover have "GetInputsByTxID d (t_txid t) w =
      (Inr (map scan_input (filter (\<lambda>r. i_transaction_id r = t_id t) (inputs (c_db w)))), w)"
    unfolding GetInputsByTxID_def iowrapf_def Query_def Let_def join_single [OF assms(1,3)]
    by (simp add: undisturbed [OF assms(2)])
  moreover have "GetOutputsByTxID d (t_txid t) None w =
      (Inr (map scan_output (filter (\<lambda>r. o_transaction_id r = t_id t) (outputs (c_db w)))), w)"
    unfolding GetOutputsByTxID_def iowrapf_def Query_def Let_def option.case filter_True
      join_single [OF assms(1,3)]
    by (simp add: undisturbed [OF assms(2)])
  moreover have "dtx_TxID (scan_tx fmt now (t, b)) = t_txid t" for fmt now
    by (simp add: scan_tx_def)
  ultimately show ?thesis unfolding GetTxByTxID_def iowrapf_def by (simp add: Let_def)
qed

text \<open>
  C14: what was inserted can be read.  After \<open>InsertTx\<close> has succeeded for a transaction that was not
  stored, on a connection as bad as it may be, \<open>GetTxByTxID\<close> on an undisturbed connection returns
  the transaction with its inputs, witnesses included, and its outputs with the converted amounts.
\<close>

theorem InsertTx_GetTxByTxID:
  assumes "wf_db (c_db w)" "in_i32 txIndex" "txObj t = Inr obj"
    "tx_TxID t \<notin> t_txid ` set (txs (c_db w))" "distinct (map vout_N (tx_Vouts t))"
    "\<forall>v \<in> set (tx_Vins t). \<forall>ws. vin_TxInWitness v = Some ws \<longrightarrow> clean_witness ws"
    "InsertTx d t txIndex blockID w = (Inr (), w')" "c_db w2 = c_db w'" "c_plans w2 = []"
  shows "\<exists>r. fst (GetTxByTxID d2 (tx_TxID t) w2) = Inr r \<and> dtx_TxID r = tx_TxID t \<and>
    dtx_Hash r = tx_Hash t \<and> dtx_Version r = tx_Version t \<and> dtx_Size r = tx_Size t \<and>
    dtx_Inputs r = input_objs 0 (tx_Vins t) \<and>
    dtx_Outputs r = map (\<lambda>v. v\<lparr>out_Addresses := []\<rparr>) (td_outputs obj)"
proof -
  note obj = txObj_Inr [OF assms(3)]
  have run: "transaction_insert blockID obj (tx_Hex t) txIndex (c_db w) = (Inr (), c_db w')"
    using insert_tx.exactly_once [OF _ assms(7) [unfolded InsertTx_retries [OF assms(3)]]] assms(1,2)
    by blast
  have wf: "wf_db (c_db w2)" unfolding assms(8) by (rule transaction_insert_wf [OF run assms(1)])
  have d1: "distinct (map in_Vin (td_inputs obj))" unfolding obj(3) using input_objs_vins by blast
  have d2: "distinct (map out_Vout (td_outputs obj))" unfolding obj(6) by (rule assms(5))
  have nw: "td_txid obj \<notin> t_txid ` set (txs (c_db w))" unfolding obj(1) by (rule assms(4))
  from transaction_insert_new [OF assms(1) run nw d1 d2]
  obtain lt where lt: "new_tx_row (tx_seq (c_db w)) (opt_of txIndex) (opt_of blockID) obj (tx_Hex t) lt
      \<in> set (txs (c_db w2))" (is "?t \<in> _")
    "map scan_input (filter (\<lambda>r. i_transaction_id r = tx_seq (c_db w)) (inputs (c_db w2))) =
       map stored_input (td_inputs obj)"
    "map scan_output (filter (\<lambda>r. o_transaction_id r = tx_seq (c_db w)) (outputs (c_db w2))) =
       map (\<lambda>v. v\<lparr>out_Addresses := []\<rparr>) (td_outputs obj)"
    unfolding assms(8) by blast
  have t: "t_txid ?t = tx_TxID t" "t_id ?t = tx_seq (c_db w)" by (simp_all add: new_tx_row_def obj)
  obtain b where "left_block (c_db w2) ?t = [b]" using left_block_single [OF wf] .
  from GetTxByTxID_row [OF wf assms(9) lt(1) this, unfolded t lt(2,3), of d2]
  show ?thesis
    by (simp add: scan_tx_def obj stored_input_id [OF assms(6)]) (simp add: new_tx_row_def obj)
qed

section \<open>A concrete insertion\<close>

definition coin_tx :: Tx where
  "coin_tx = \<lparr>tx_TxID = ''c'', tx_Hash = ''c'', tx_Version = 1, tx_Size = 1, tx_VSize = 1,
     tx_Weight = 4, tx_Locktime = ''0'',
     tx_Vins = [\<lparr>vin_TxID = ''p'', vin_Vout = 1, vin_Asm = [], vin_Hex = [],
       vin_TxInWitness = Some [''3044'', ''02''], vin_Sequence = 0, vin_Coinbase = []\<rparr>],
     tx_Vouts = [\<lparr>vout_Value = ''0.5'', vout_N = 0, vout_Asm = [], vout_Hex = [], vout_ReqSigs = 1,
       vout_Type = ''pubkeyhash'', vout_Addresses = [''C'']\<rparr>], tx_Hex = ''00''\<rparr>"

definition coin_obj :: tx_def where
  "coin_obj = \<lparr>td_txid = ''c'', td_hash = ''c'', td_version = 1, td_size = 1, td_vsize = 1, td_weight = 4,
     td_locktime = ''0'', td_inputs = input_objs 0 (tx_Vins coin_tx),
     td_outputs = [\<lparr>out_Vout = 0, out_SatAmount = 50000000, out_Asm = [], out_Hex = [], out_ReqSigs = 1,
       out_Type = ''pubkeyhash'', out_Address = ''C'', out_Addresses = [''C'']\<rparr>]\<rparr>"

lemma coin_obj: "txObj coin_tx = Inr coin_obj"
proof -
  have "ToSatoshi ''0.5'' = Inr 50000000"
    using ToSatoshi_digits [of "''0''" "''5''"] by (simp add: digit_val_def)
  moreover have "marshal_number ''0'' = Inr ''0''" by code_simp
  ultimately show ?thesis by (simp add: txObj_def coin_tx_def coin_obj_def output_obj_def)
qed

text \<open>The first reply is lost; the second attempt is undisturbed.\<close>

definition flaky_conn :: conn where
  "flaky_conn = sample_conn [\<lparr>p_outcome = LostAfter, p_order = [], p_pick = hd\<rparr>]"

lemma flaky_conn:
  "c_db flaky_conn = sample_db" "wf_db (c_db flaky_conn)" "outcome_at flaky_conn 0 = LostAfter"
  "outcome_at flaky_conn 1 = Done"
  by (simp_all add: flaky_conn_def sample_conn_def sample_db_wf outcome_at_def)

lemma coin_accepted: "\<exists>s'. transaction_insert (-1) coin_obj ''00'' (-1) sample_db = (Inr (), s')"
proof -
  have "ParseInt ''0'' = (0, None)"
    using ParseInt_digits [of "''0''"] by (simp add: digit_val_def)
  then show ?thesis
    by (simp add: transaction_insert_def coin_obj_def coin_tx_def sample_db_def sample_row_def
        sample_out_row_def opt_of_def tx_i32_def in_i32_def block_id_ok_def Let_def empty_db_def)
qed

theorem InsertTx_succeeds_witness:
  "\<exists>w'. InsertTx sample_handle coin_tx (-1) (-1) flaky_conn = (Inr (), w')"
proof -
  obtain s' where "transaction_insert (-1) coin_obj (tx_Hex coin_tx) (-1) (c_db flaky_conn) = (Inr (), s')"
    using coin_accepted by (auto simp: flaky_conn coin_tx_def)
  moreover have "in_i32 (-1)" "int 1 < max 1 (Attempts (d_retry sample_handle))"
    "in_i64 (Attempts (d_retry sample_handle))"
    by (simp_all add: sample_handle_def in_i32_def in_i64_def)
  ultimately show ?thesis
    using InsertTx_succeeds [OF flaky_conn(2) _ coin_obj _ _ _ flaky_conn(4)] by blast
qed

lemma coin_inserted:
  obtains w' where "InsertTx sample_handle coin_tx (-1) (-1) flaky_conn = (Inr (), w')"
proof -
  obtain s' where s': "transaction_insert (-1) coin_obj (tx_Hex coin_tx) (-1) (c_db flaky_conn) = (Inr (), s')"
    using coin_accepted by (auto simp: flaky_conn coin_tx_def)
  have "(1 :: nat) \<le> nat (i64 (Attempts (d_retry sample_handle) - 1))"
    by (simp add: sample_handle_def i64_id in_i64_def)
  moreover have "wf_db (c_db flaky_conn) \<and> in_i32 (-1)" using flaky_conn(2) by (simp add: in_i32_def)
  ultimately show thesis
    using insert_tx.live [OF _ s' _ flaky_conn(4)] that unfolding InsertTx_retries [OF coin_obj] by blast
qed

theorem InsertTx_exactly_once_witness:
  "\<exists>w'. InsertTx sample_handle coin_tx (-1) (-1) flaky_conn = (Inr (), w') \<and>
     transaction_insert (-1) coin_obj ''00'' (-1) sample_db = (Inr (), c_db w')"
proof -
  obtain w' where w': "InsertTx sample_handle coin_tx (-1) (-1) flaky_conn = (Inr (), w')"
    using coin_inserted .
  from InsertTx_exactly_once [OF flaky_conn(2) _ coin_obj w']
  show ?thesis using w' by (auto simp: in_i32_def flaky_conn coin_tx_def)
qed

theorem InsertTx_GetTxByTxID_witness:
  "\<exists>w' r. InsertTx sample_handle coin_tx (-1) (-1) flaky_conn = (Inr (), w') \<and>
     fst (GetTxByTxID sample_handle ''c'' (w'\<lparr>c_plans := []\<rparr>)) = Inr r \<and>
     map in_TxInWitness (dtx_Inputs r) = [Some [''3044'', ''02'']] \<and>
     map out_SatAmount (dtx_Outputs r) = [50000000]"
proof -
  obtain w' where w': "InsertTx sample_handle coin_tx (-1) (-1) flaky_conn = (Inr (), w')"
    using coin_inserted .
  have "\<forall>v \<in> set (tx_Vins coin_tx). \<forall>ws. vin_TxInWitness v = Some ws \<longrightarrow> clean_witness ws"
    by (simp add: coin_tx_def clean_witness_def)
  moreover have "tx_TxID coin_tx \<notin> t_txid ` set (txs (c_db flaky_conn))"
    "distinct (map vout_N (tx_Vouts coin_tx))" "in_i32 (-1)"
    by (simp_all add: flaky_conn coin_tx_def sample_db_def sample_row_def in_i32_def)
  ultimately obtain r where "fst (GetTxByTxID sample_handle (tx_TxID coin_tx) (w'\<lparr>c_plans := []\<rparr>)) = Inr r"
    "dtx_Inputs r = input_objs 0 (tx_Vins coin_tx)"
    "dtx_Outputs r = map (\<lambda>v. v\<lparr>out_Addresses := []\<rparr>) (td_outputs coin_obj)"
    using InsertTx_GetTxByTxID [OF flaky_conn(2) _ coin_obj _ _ _ w', of "w'\<lparr>c_plans := []\<rparr>" sample_handle]
    by auto
  then show ?thesis using w' by (auto simp: coin_tx_def coin_obj_def)
qed

end
