(* ===== verification/Reorder.thy ===== *)
theory Reorder
  imports Prelude "HOL-Library.Multiset"
begin

text \<open>
  Reorder buffers.  Two programs fetch blocks concurrently and put the results back in order of
  height before they go on: the indexer (\<open>orderBlock\<close>) with a sorted slice, the block validator
  (\<open>orderResults\<close>) with a map.  The locale states what both promise about taking in some results
  and handing out those that are next, and derives that a complete set of results comes out in
  order, whatever order it arrived in.
\<close>

lemma upto_append: "a \<le> b \<Longrightarrow> b \<le> c \<Longrightarrow> [a..b - 1] @ [b..c - 1] = [a..c - (1 :: int)]"
  using upto_split1 [of a b "c - 1"] by (cases "b = c") simp_all

locale reorder_buffer =
  fixes key :: "'a \<Rightarrow> int"
    and push :: "'s \<Rightarrow> 'a list \<Rightarrow> 'a list \<times> 's"
    and nxt :: "'s \<Rightarrow> int"
    and held :: "'s \<Rightarrow> 'a multiset"
    and ok :: "'s \<Rightarrow> bool"
    and top :: int
  assumes push_law: "ok s \<Longrightarrow> distinct (map key xs) \<Longrightarrow>
      (\<And>x. x \<in> set xs \<Longrightarrow> nxt s \<le> key x \<and> key x < top \<and> key x \<notin> key ` set_mset (held s)) \<Longrightarrow>
      (\<And>x. x \<in># held s \<Longrightarrow> nxt s < key x \<and> key x < top) \<Longrightarrow>
      push s xs = (out, s') \<Longrightarrow>
      ok s' \<and> mset out + held s' = held s + mset xs \<and>
      map key out = [nxt s..nxt s + int (length out) - 1] \<and> nxt s' = nxt s + int (length out) \<and>
      (\<forall>x \<in># held s'. nxt s' < key x \<and> key x < top)"
begin

fun feed :: "'s \<Rightarrow> 'a list list \<Rightarrow> 'a list \<times> 's" where
  "feed s [] = ([], s)"
| "feed s (xs # xss) =
    (let (out, s1) = push s xs; (outs, s2) = feed s1 xss in (out @ outs, s2))"

lemma feed_law:
  assumes "feed s xss = (out, s')" "ok s" "\<forall>x \<in># held s. nxt s < key x \<and> key x < top"
    "distinct (map key (concat xss))"
    "\<forall>x \<in> set (concat xss). nxt s \<le> key x \<and> key x < top \<and> key x \<notin> key ` set_mset (held s)"
  shows "ok s' \<and> mset out + held s' = held s + mset (concat xss) \<and>
    map key out = [nxt s..nxt s + int (length out) - 1] \<and> nxt s' = nxt s + int (length out) \<and>
    (\<forall>x \<in># held s'. nxt s' < key x \<and> key x < top)"
  using assms
proof (induction s xss arbitrary: out rule: feed.induct)
  case (1 s)
  then show ?case by auto
next
  case (2 s xs xss)
  obtain o1 s1 where p: "push s xs = (o1, s1)" by fastforce
  obtain o2 s2 where f: "feed s1 xss = (o2, s2)" by fastforce
  have out: "out = o1 @ o2" "s' = s2" using "2.prems"(1) p f by simp_all
  have l: "ok s1" "mset o1 + held s1 = held s + mset xs"
    "map key o1 = [nxt s..nxt s + int (length o1) - 1]" "nxt s1 = nxt s + int (length o1)"
    "\<forall>x \<in># held s1. nxt s1 < key x \<and> key x < top"
    using push_law [OF "2.prems"(2) _ _ _ p] "2.prems"(3-5) by auto
  have keys: "key x \<notin> key ` set_mset (held s1) \<and> nxt s1 \<le> key x" if x: "x \<in> set (concat xss)" for x
  proof -
    have "set (map key xs) \<inter> set (map key (concat xss)) = {}" using "2.prems"(4) by simp
    moreover have "key x \<in> set (map key (concat xss))" using x by simp
    ultimately have "key x \<notin> set (map key xs)" by blast
    moreover have "key x \<notin> key ` set_mset (held s)" using "2.prems"(5) x by simp
    ultimately have "key x \<notin> key ` set_mset (held s + mset xs)" by auto
    then have no: "key x \<notin> key ` set_mset (mset o1 + held s1)" unfolding l(2) .
    then have "key x \<notin> set (map key o1)" by auto
    then have "\<not> (nxt s \<le> key x \<and> key x < nxt s1)" unfolding l(3,4) by simp
    then show ?thesis using no "2.prems"(5) x by auto
  qed
  have d: "distinct (map key (concat xss))" using "2.prems"(4) by simp
  have k: "\<forall>x \<in> set (concat xss). nxt s1 \<le> key x \<and> key x < top \<and> key x \<notin> key ` set_mset (held s1)"
    using keys "2.prems"(5) by simp
  note r = "2.IH" [OF p [symmetric] refl f [folded out(2)] l(1,5) d k, unfolded out(2)]
  have "map key out = [nxt s..nxt s1 - 1] @ [nxt s1..nxt s2 - 1]"
    using r l(3,4) out(1) by simp
  also have "\<dots> = [nxt s..nxt s2 - 1]"
    using r l(4) by (intro upto_append) simp_all
  finally have "map key out = [nxt s..nxt s + int (length out) - 1]"
    using r l(4) out(1) by (simp add: algebra_simps)
  moreover have "mset out + held s' = held s + mset (concat (xs # xss))"
    using r l(2) out by (simp add: ac_simps)
  moreover have "nxt s' = nxt s + int (length out)" using r out l(4) by simp
  ultimately show ?case using r unfolding out(2) by blast
qed

text \<open>A complete set of results comes out in order, once each, and nothing is left behind.\<close>

lemma in_order:
  assumes "feed s xss = (out, s')" "ok s" "held s = {#}" "distinct (map key (concat xss))"
    "key ` set (concat xss) = {nxt s..<b}" "nxt s \<le> b" "b \<le> top"
  shows "map key out = [nxt s..b - 1] \<and> mset out = mset (concat xss) \<and> held s' = {#}"
proof -
  have range: "\<forall>x \<in> set (concat xss). nxt s \<le> key x \<and> key x < b"
  proof
    fix x assume "x \<in> set (concat xss)"
    then have "key x \<in> {nxt s..<b}" unfolding assms(5) [symmetric] by (rule imageI)
    then show "nxt s \<le> key x \<and> key x < b" by simp
  qed
  then have r: "\<forall>x \<in> set (concat xss). nxt s \<le> key x \<and> key x < top \<and> key x \<notin> key ` set_mset (held s)"
    using assms(3,7) by fastforce
  have h: "\<forall>x \<in># held s. nxt s < key x \<and> key x < top" using assms(3) by simp
  have l: "mset out + held s' = mset (concat xss)" "nxt s \<le> nxt s'"
    "map key out = [nxt s..nxt s' - 1]" "\<forall>x \<in># held s'. nxt s' < key x"
    using feed_law [OF assms(1,2) h assms(4) r] assms(3) by auto
  have "set_mset (mset (concat xss)) = set out \<union> set_mset (held s')"
    unfolding l(1) [symmetric] by simp
  then have "set (concat xss) = set out \<union> set_mset (held s')" by simp
  then have "{nxt s..<b} = key ` set out \<union> key ` set_mset (held s')"
    unfolding assms(5) [symmetric] by (simp only: image_Un)
  moreover have "key ` set out = {nxt s..nxt s' - 1}"
    using l(3) by (metis set_map set_upto)
  ultimately have eq: "{nxt s..<b} = {nxt s..nxt s' - 1} \<union> key ` set_mset (held s')" by simp
  have "nxt s' \<notin> key ` set_mset (held s')" using l(4) by auto
  then have "nxt s' \<notin> {nxt s..<b}" unfolding eq by simp
  then have "b \<le> nxt s'" using l(2) by simp
  moreover have "nxt s' \<le> b"
  proof (rule ccontr)
    assume "\<not> nxt s' \<le> b"
    then have "b \<in> {nxt s..nxt s' - 1}" using assms(6) by simp
    then have "b \<in> {nxt s..<b}" unfolding eq by blast
    then show False by simp
  qed
  ultimately have b: "nxt s' = b" by simp
  have "set_mset (held s') = {}"
  proof (rule ccontr)
    assume "set_mset (held s') \<noteq> {}"
    then obtain x where "x \<in># held s'" by blast
    then have "b < key x" "key x \<in> {nxt s..<b}" using l(4) b eq by auto
    then show False by simp
  qed
  then show ?thesis using l(1,3) b by simp
qed

end

end
