(* ===== verification/Indexer.thy ===== *)
theory Indexer
  imports Utxo_Rpc Postgres_Write Reorder
begin

text \<open>
  \<open>V2/cmd/indexer/main.go\<close>.  The interfaces \<open>Blockchain\<close> and \<open>Database\<close> are records of operations
  on a common world.  A goroutine that loops over a channel is a function of what it receives; what
  it sends is its result.  The interleaving of the stages that touch the database is a step relation.
  Closing \<open>doneChan\<close> only happens on the way to \<open>log.Fatal\<close> and is not modelled separately.
\<close>

section \<open>Interfaces\<close>

record 'w BlockchainI =
  i_GetBlocks :: "BlocksVal \<Rightarrow> ('w, Block option list) io"
  i_GetChainInfo :: "('w, ChainInfo) io"
  i_GetMempool :: "('w, string list) io"
  i_GetRawTransactions :: "string list \<Rightarrow> ('w, Tx option list) io"

record 'w DatabaseI =
  i_LastBlock :: "('w, LastBlock_row option) io"
  i_InsertBlock :: "Block \<Rightarrow> bool \<Rightarrow> ('w, int) io"
  i_GetBlock :: "BlockVal \<Rightarrow> ('w, BlockHeader) io"
  i_InsertTx :: "Tx \<Rightarrow> int \<Rightarrow> int \<Rightarrow> ('w, unit) io"

text \<open>The node client and the database layer as implementations.\<close>

definition on_fst :: "('a, 'r) io \<Rightarrow> ('a \<times> 'b, 'r) io" where
  "on_fst m w = (case m (fst w) of (r, a) \<Rightarrow> (r, (a, snd w)))"

definition on_snd :: "('b, 'r) io \<Rightarrow> ('a \<times> 'b, 'r) io" where
  "on_snd m w = (case m (snd w) of (r, b) \<Rightarrow> (r, (fst w, b)))"

definition node_impl :: "'n net \<Rightarrow> Blockchain \<Rightarrow> ('n \<times> 'b) BlockchainI" where
  "node_impl net b = \<lparr>i_GetBlocks = (\<lambda>v. on_fst (GetBlocks net b v)),
     i_GetChainInfo = on_fst (GetChainInfo net b), i_GetMempool = on_fst (GetMempool net b),
     i_GetRawTransactions = (\<lambda>hs. on_fst (GetRawTransactions net b hs))\<rparr>"

definition db_impl :: "Database \<Rightarrow> ('n \<times> conn) DatabaseI" where
  "db_impl d = \<lparr>i_LastBlock = on_snd (LastBlock d), i_InsertBlock = (\<lambda>b r. on_snd (InsertBlock d b r)),
     i_GetBlock = (\<lambda>v. on_snd (GetBlock d v)), i_InsertTx = (\<lambda>t i b. on_snd (InsertTx d t i b))\<rparr>"

section \<open>The indexer\<close>

record Indexer =
  dbThreads :: int
  rpcThreads :: int
  startBlock :: int
  endBlock :: int
  syncTip :: bool
  batchSize :: int
  recover :: bool
  notifyMonitor :: bool

record txResult =
  r_tx :: Tx
  r_index :: int
  r_blockId :: int

text \<open>Command line flags; the connections are the interface arguments of the operations below.\<close>

record flags =
  f_startBlock :: int
  f_endBlock :: int
  f_syncTip :: bool
  f_batchSize :: int
  f_recover :: bool

definition newIndexer :: "flags \<Rightarrow> Config \<Rightarrow> Coin_cfg \<Rightarrow> (DB_cfg \<Rightarrow> Database result) \<Rightarrow>
    (Indexer \<times> Database) result" where
  "newIndexer fl c cc newdb =
    rbind (fatal ''main'' (GetDBConfig c ReadWrite cc)) (\<lambda>dbConfig.
    rbind (fatal ''main'' (newdb dbConfig)) (\<lambda>d.
    Inr (\<lparr>dbThreads = db_Threads (DB_BaseDB dbConfig), rpcThreads = rpc_Threads (RPC_BaseRPC (GetRPCConfig c cc)),
      startBlock = f_startBlock fl, endBlock = f_endBlock fl, syncTip = f_syncTip fl,
      batchSize = f_batchSize fl, recover = f_recover fl, notifyMonitor = False\<rparr>, d)))"

definition setStartBlock :: "'w DatabaseI \<Rightarrow> Indexer \<Rightarrow> ('w, Indexer) io" where
  "setStartBlock db ix =
    (if syncTip ix then
       iobind (iofatal ''failed to set start block'' (i_LastBlock db)) (\<lambda>blk.
       ioret (ix\<lparr>startBlock := (case blk of None \<Rightarrow> 0 | Some b \<Rightarrow> last_Height b)\<rparr>))
     else ioret ix)"

definition setEndBlock :: "'w BlockchainI \<Rightarrow> Indexer \<Rightarrow> ('w, Indexer) io" where
  "setEndBlock bc ix =
    (if syncTip ix then
       iobind (iofatal ''failed to set end block'' (i_GetChainInfo bc)) (\<lambda>info.
       ioret (ix\<lparr>endBlock := ci_Blocks info\<rparr>))
     else if endBlock ix < startBlock ix then ioret (ix\<lparr>endBlock := startBlock ix\<rparr>)
     else ioret ix)"

section \<open>Block heights\<close>

text \<open>The batch that starts at \<open>i\<close>: at most \<open>n\<close> heights, none above the end.\<close>

fun heights_from :: "nat \<Rightarrow> int \<Rightarrow> int \<Rightarrow> int list" where
  "heights_from 0 b end = []"
| "heights_from (Suc n) b end = (if b > end then [] else b # heights_from n (i64 (b + 1)) end)"

text \<open>
  The loop over \<open>i\<close> need not end: the end moves with the node, and a batch size of 0 never advances.
  The result are the batches sent.
\<close>

partial_function (option) processBlockHeights ::
  "'w BlockchainI \<Rightarrow> Indexer \<Rightarrow> int \<Rightarrow> 'w \<Rightarrow> (int list list result \<times> 'w) option" where
  "processBlockHeights bc ix i w =
    (if i \<le> endBlock ix then
       (case (if i64 (endBlock ix - batchSize ix) \<le> i then setEndBlock bc ix w else (Inr ix, w)) of
          (Inl e, w) \<Rightarrow> Some (Inl e, w)
        | (Inr ix, w) \<Rightarrow>
            Option.bind (processBlockHeights bc ix (i64 (i + batchSize ix)) w) (\<lambda>(r, w).
              Some (rbind r (\<lambda>bs. Inr (heights_from (nat (batchSize ix)) i (endBlock ix) # bs)), w)))
     else Some (Inr [], w))"

declare processBlockHeights.simps [code]

definition getBlocks :: "'w BlockchainI \<Rightarrow> BlocksVal \<Rightarrow> ('w, Block option list) io" where
  "getBlocks bc v = iofatal ''main'' (i_GetBlocks bc v)"

section \<open>Ordering\<close>

text \<open>
  One round of \<open>orderBlock\<close>: the blocks received are added to the store, the store is sorted by
  height, and the blocks that continue the sequence are sent.  Heights are distinct in a run, so
  that sorting with the unstable \<open>sort.Slice\<close> has one possible result.
\<close>

fun send_ready :: "int \<Rightarrow> Block list \<Rightarrow> Block list \<times> int \<times> Block list" where
  "send_ready nextBlock [] = ([], nextBlock, [])"
| "send_ready nextBlock (b # bs) =
    (if b_Height b = nextBlock then
       let (sent, n, rest) = send_ready (i64 (b_Height b + 1)) bs in (b # sent, n, rest)
     else ([], nextBlock, b # bs))"

definition order_push :: "int \<times> Block list \<Rightarrow> Block list \<Rightarrow> Block list \<times> int \<times> Block list" where
  "order_push s blks = send_ready (fst s) (sort_key b_Height (snd s @ blks))"

fun orderBlock :: "int \<times> Block list \<Rightarrow> Block option list list \<Rightarrow> Block list result" where
  "orderBlock s [] = Inr []"
| "orderBlock s (blks # rest) =
    rbind (rmapM deref blks) (\<lambda>bs.
    let (sent, s') = order_push s bs in
    rbind (orderBlock s' rest) (\<lambda>out. Inr (sent @ out)))"

section \<open>Writing\<close>

fun tx_results :: "int \<Rightarrow> int \<Rightarrow> Tx list \<Rightarrow> txResult list" where
  "tx_results blockId i [] = []"
| "tx_results blockId i (t # ts) =
    \<lparr>r_tx = t, r_index = i, r_blockId = blockId\<rparr> # tx_results blockId (i + 1) ts"

text \<open>One round of \<open>writeBlock\<close>: the transactions to write, and whether the monitor is notified.\<close>

definition writeBlock :: "'w DatabaseI \<Rightarrow> Indexer \<Rightarrow> Block \<Rightarrow> ('w, txResult list \<times> bool) io" where
  "writeBlock db ix b =
    iobind (iofatal ''main'' (i_InsertBlock db b (recover ix))) (\<lambda>blockId.
    ioret (tx_results blockId 0 (b_Txs b), notifyMonitor ix))"

definition writeTx :: "'w DatabaseI \<Rightarrow> txResult \<Rightarrow> ('w, unit) io" where
  "writeTx db r =
    (let t = (if tx_Hash (r_tx r) = [] then (r_tx r)\<lparr>tx_Hash := tx_TxID (r_tx r)\<rparr> else r_tx r) in
     iofatal ''main'' (i_InsertTx db t (r_index r) (r_blockId r)))"

text \<open>
  The database side of \<open>initialSync\<close> (lines 225 to 236): \<open>writeBlock\<close> takes the next ordered block
  and hands its transactions one by one to whichever of the \<open>dbThreads\<close> writers is free; each writer
  holds one transaction at a time.  A failed write ends the process.
\<close>

record 'w pipe =
  to_write :: "Block list"
  sending :: "txResult list"
  writing :: "txResult list"
  world :: 'w

inductive pipe_step :: "'w DatabaseI \<Rightarrow> Indexer \<Rightarrow> 'w pipe \<Rightarrow> 'w pipe \<Rightarrow> bool"
  for db :: "'w DatabaseI" and ix :: Indexer where
  block: "to_write p = b # bs \<Longrightarrow> sending p = [] \<Longrightarrow>
    writeBlock db ix b (world p) = (Inr (rs, note), w') \<Longrightarrow>
    pipe_step db ix p (p\<lparr>to_write := bs, sending := rs, world := w'\<rparr>)"
| hand_over: "sending p = r # rs \<Longrightarrow> int (length (writing p)) < dbThreads ix \<Longrightarrow>
    pipe_step db ix p (p\<lparr>sending := rs, writing := r # writing p\<rparr>)"
| tx: "writing p = xs @ r # ys \<Longrightarrow> writeTx db r (world p) = (Inr (), w') \<Longrightarrow>
    pipe_step db ix p (p\<lparr>writing := xs @ ys, world := w'\<rparr>)"

section \<open>Staying synced\<close>

text \<open>One signal to \<open>processMempool\<close>; an error goes to \<open>errChan\<close>, which ends the process.\<close>

definition processMempool :: "'w BlockchainI \<Rightarrow> ('w, MempoolTx list) io" where
  "processMempool bc =
    iobind (iofatal ''main'' (i_GetMempool bc)) (\<lambda>txids.
    ioret (map (\<lambda>i. \<lparr>m_Hash = i, m_Fails = 0\<rparr>) txids))"

text \<open>
  One round of \<open>getMempoolTxs\<close>: the results to write, or the transaction to queue again.  The pointer
  in a result is followed by \<open>writeTx\<close>.
\<close>

definition getMempoolTxs :: "'w BlockchainI \<Rightarrow> MempoolTx \<Rightarrow> ('w, Tx option list + MempoolTx option) io" where
  "getMempoolTxs bc m w =
    (case i_GetRawTransactions bc [m_Hash m] w of
       (Inl (Err e), w') \<Rightarrow> (Inr (Inr (if m_Fails m < 10 then Some (m\<lparr>m_Fails := m_Fails m + 1\<rparr>) else None)), w')
     | (Inl e, w') \<Rightarrow> (Inl e, w')
     | (Inr ts, w') \<Rightarrow> (Inr (Inl ts), w'))"

inductive mempool_step :: "'w BlockchainI \<Rightarrow> MempoolTx list \<times> 'w \<Rightarrow> MempoolTx list \<times> 'w \<Rightarrow> bool"
  for bc :: "'w BlockchainI" where
  fetched: "getMempoolTxs bc m w = (Inr (Inl ts), w') \<Longrightarrow>
    mempool_step bc (xs @ m # ys, w) (xs @ ys, w')"
| requeued: "getMempoolTxs bc m w = (Inr (Inr (Some m')), w') \<Longrightarrow>
    mempool_step bc (xs @ m # ys, w) (xs @ ys @ [m'], w')"
| dropped: "getMempoolTxs bc m w = (Inr (Inr None), w') \<Longrightarrow>
    mempool_step bc (xs @ m # ys, w) (xs @ ys, w')"

text \<open>One signal to \<open>syncToTip\<close>: the blocks sent, from the last one in the database to the tip.\<close>

fun blocks_from :: "'w BlockchainI \<Rightarrow> nat \<Rightarrow> int \<Rightarrow> ('w, Block option list) io" where
  "blocks_from bc 0 i = ioret []"
| "blocks_from bc (Suc n) i =
    iobind (iofatal ''main'' (i_GetBlocks bc (Heights [i]))) (\<lambda>b.
    iobind (iolift (case b of [] \<Rightarrow> Inl (Panic ''index out of range'') | x # _ \<Rightarrow> Inr x)) (\<lambda>x.
    iobind (blocks_from bc n (i + 1)) (\<lambda>xs.
    ioret (x # xs))))"

definition syncToTip :: "'w BlockchainI \<Rightarrow> 'w DatabaseI \<Rightarrow> ('w, Block option list) io" where
  "syncToTip bc db =
    iobind (iofatal ''failed to set end block'' (i_GetChainInfo bc)) (\<lambda>info.
    iobind (iofatal ''main'' (i_LastBlock db)) (\<lambda>lastBlock.
    iobind (iolift (deref lastBlock)) (\<lambda>l.
    blocks_from bc (nat (ci_Blocks info - last_Height l + 1)) (last_Height l))))"

end
