(* ===== verification/Indexer_Order.thy ===== *)
theory Indexer_Order
  imports Indexer
begin

text \<open>
  The fetching side of the indexer: which heights are requested, that the blocks come out in order,
  how often a mempool transaction is requested, and what happens with an empty database.
\<close>

section \<open>Heights\<close>

lemma heights_from_upto:
  assumes "- (2 ^ 63) \<le> b" "b + int n < 2 ^ 63"
  shows "heights_from n b e = [b..min (b + int n - 1) e]"
  using assms
proof (induction n b e rule: heights_from.induct)
  case (2 n b e)
  have i: "i64 (b + 1) = b + 1" using "2.prems" by (intro i64_id) (simp add: in_i64_def)
  show ?case
  proof (cases "b > e")
    case False
    then have "heights_from (Suc n) b e = b # [b + 1..min (b + int (Suc n) - 1) e]"
      using "2.IH" [unfolded i] "2.prems" i by (simp add: algebra_simps)
    also have "\<dots> = [b..min (b + int (Suc n) - 1) e]"
      using False by (intro upto_rec1 [symmetric]) simp
    finally show ?thesis .
  qed simp
qed simp

text \<open>The node's tip stays at \<open>tip\<close> while the heights are generated.\<close>

definition settled :: "'w BlockchainI \<Rightarrow> Indexer \<Rightarrow> int \<Rightarrow> bool" where
  "settled bc ix tip \<longleftrightarrow>
    (if syncTip ix then \<forall>w. \<exists>info. i_GetChainInfo bc w = (Inr info, w) \<and> ci_Blocks info = tip
     else startBlock ix \<le> endBlock ix \<and> endBlock ix = tip)"

lemma setEndBlock_settled:
  assumes "settled bc ix tip"
  shows "setEndBlock bc ix w = (Inr (ix\<lparr>endBlock := tip\<rparr>), w)"
proof (cases "syncTip ix")
  case True
  then obtain info where "i_GetChainInfo bc w = (Inr info, w)" "ci_Blocks info = tip"
    using assms by (auto simp: settled_def)
  then show ?thesis using True by (simp add: setEndBlock_def)
next
  case False
  then show ?thesis using assms by (simp add: setEndBlock_def settled_def)
qed

text \<open>
  C19: every height is requested once.  While the node's tip does not move, generating the heights
  ends, and the batches sent cover the heights from the start to the tip in order, without gaps or
  repetitions, none longer than the batch size and none empty.
\<close>

theorem processBlockHeights_covers:
  assumes "settled bc ix tip" "0 < batchSize ix" "- (2 ^ 63) \<le> i" "i \<le> endBlock ix"
    "endBlock ix \<le> tip" "tip + batchSize ix < 2 ^ 63" "- (2 ^ 63) \<le> endBlock ix - batchSize ix"
  shows "\<exists>bs. processBlockHeights bc ix i w = Some (Inr bs, w) \<and> concat bs = [i..tip] \<and>
    (\<forall>b \<in> set bs. b \<noteq> [] \<and> int (length b) \<le> batchSize ix)"
  using assms
proof (induction "nat (tip - i)" arbitrary: ix i rule: less_induct)
  case less
  let ?n = "batchSize ix"
  have e: "i64 (endBlock ix - ?n) = endBlock ix - ?n" "i64 (i + ?n) = i + ?n"
    using less.prems by (intro i64_id; simp add: in_i64_def)+
  let ?ix = "if endBlock ix - ?n \<le> i then ix\<lparr>endBlock := tip\<rparr> else ix"
  have upd: "(if i64 (endBlock ix - ?n) \<le> i then setEndBlock bc ix w else (Inr ix, w)) = (Inr ?ix, w)"
    using setEndBlock_settled [OF less.prems(1)] e by simp
  have ix: "batchSize ?ix = ?n" "endBlock ?ix \<le> tip" "settled bc ?ix tip" "i \<le> endBlock ?ix"
    "endBlock ix \<le> endBlock ?ix"
    using less.prems by (auto simp: settled_def)
  define h where "h = heights_from (nat ?n) i (endBlock ?ix)"
  have h: "h = [i..min (i + ?n - 1) (endBlock ?ix)]"
    unfolding h_def using less.prems by (subst heights_from_upto) simp_all
  have rec: "processBlockHeights bc ix i w = Option.bind (processBlockHeights bc ?ix (i + ?n) w)
      (\<lambda>(r, w). Some (rbind r (\<lambda>bs. Inr (h # bs)), w))"
    using less.prems(4) upd unfolding h_def
    by (subst processBlockHeights.simps) (simp add: e ix(1) del: processBlockHeights.simps)
  have hl: "h \<noteq> []" "int (length h) \<le> ?n" unfolding h using ix(4) less.prems(2) by auto
  show ?case
  proof (cases "i + ?n \<le> endBlock ?ix")
    case True
    then obtain bs where bs: "processBlockHeights bc ?ix (i + ?n) w = Some (Inr bs, w)"
      "concat bs = [i + ?n..tip]" "\<forall>b \<in> set bs. b \<noteq> [] \<and> int (length b) \<le> batchSize ?ix"
      using less.hyps [of "i + ?n" ?ix] less.prems ix by fastforce
    have "h @ [i + ?n..tip] = [i..tip]"
      unfolding h using True ix(2) less.prems(2) upto_append [of i "i + ?n" "tip + 1"] by simp
    then show ?thesis using bs rec hl ix(1) by (intro exI [of _ "h # bs"]) auto
  next
    case False
    then have "processBlockHeights bc ?ix (i + ?n) w = Some (Inr [], w)"
      by (subst processBlockHeights.simps) simp
    moreover have e: "endBlock ?ix = tip" using False less.prems by (auto split: if_splits)
    have "min (i + ?n - 1) (endBlock ?ix) = tip" using False unfolding e by linarith
    then have "h = [i..tip]" unfolding h by simp
    ultimately show ?thesis using rec hl by (intro exI [of _ "[h]"]) simp
  qed
qed

section \<open>Order\<close>

lemma send_ready_law:
  assumes "send_ready n bs = (sent, n', rest)" "sorted (map b_Height bs)" "distinct (map b_Height bs)"
    "\<forall>b \<in> set bs. n \<le> b_Height b \<and> b_Height b < 2 ^ 63 - 1" "- (2 ^ 63) \<le> n"
  shows "bs = sent @ rest \<and> map b_Height sent = [n..n + int (length sent) - 1] \<and>
    n' = n + int (length sent) \<and> (\<forall>b \<in> set rest. n' < b_Height b)"
  using assms
proof (induction n bs arbitrary: sent rule: send_ready.induct)
  case (2 n b bs)
  show ?case
  proof (cases "b_Height b = n")
    case True
    have i: "i64 (b_Height b + 1) = n + 1" using True "2.prems"(4,5) by (subst i64_id) (auto simp: in_i64_def)
    obtain s1 where s1: "send_ready (n + 1) bs = (s1, n', rest)" "sent = b # s1"
      using "2.prems"(1) True i by (auto split: prod.splits)
    have gt: "\<forall>x \<in> set bs. n + 1 \<le> b_Height x \<and> b_Height x < 2 ^ 63 - 1"
    proof
      fix x assume x: "x \<in> set bs"
      then have "b_Height b \<le> b_Height x" "b_Height b \<noteq> b_Height x" using "2.prems"(2,3) by auto
      then show "n + 1 \<le> b_Height x \<and> b_Height x < 2 ^ 63 - 1" using True "2.prems"(4) x by auto
    qed
    have pre: "sorted (map b_Height bs)" "distinct (map b_Height bs)" "- (2 ^ 63) \<le> n + 1"
      using "2.prems" by simp_all
    have "bs = s1 @ rest \<and> map b_Height s1 = [n + 1..n + 1 + int (length s1) - 1] \<and>
        n' = n + 1 + int (length s1) \<and> (\<forall>b \<in> set rest. n' < b_Height b)"
      by (rule "2.IH" [OF True, unfolded i, OF s1(1) pre(1,2) gt pre(3)])
    then show ?thesis using s1(2) True by (auto simp: upto_rec1 [of n])
  next
    case False
    then have "sent = []" "n' = n" "rest = b # bs" using "2.prems"(1) by auto
    moreover have "n < b_Height b" using False "2.prems"(4) by auto
    moreover have "\<forall>x \<in> set bs. b_Height b \<le> b_Height x" using "2.prems"(2) by simp
    ultimately show ?thesis by auto
  qed
qed auto

interpretation block_order: reorder_buffer "b_Height :: Block \<Rightarrow> int" order_push fst "\<lambda>s. mset (snd s)"
  "\<lambda>s. - (2 ^ 63) \<le> fst s \<and> distinct (map b_Height (snd s))" "2 ^ 63 - 1"
proof (unfold_locales, goal_cases)
  case (1 s xs out s')
  let ?bs = "sort_key b_Height (snd s @ xs)"
  have "set (map b_Height (snd s)) \<inter> set (map b_Height xs) = {}"
  proof -
    have "b_Height x \<notin> b_Height ` set (snd s)" if "x \<in> set xs" for x using 1(3) [OF that] by simp
    then show ?thesis unfolding disjoint_iff set_map by (metis imageE)
  qed
  then have "distinct (map b_Height (snd s @ xs))" using 1(1,2) by (simp del: set_map)
  moreover have "mset (map b_Height ?bs) = mset (map b_Height (snd s @ xs))" by simp
  ultimately have d: "distinct (map b_Height ?bs)" using mset_eq_imp_distinct_iff by blast
  have k: "\<forall>b \<in> set ?bs. fst s \<le> b_Height b \<and> b_Height b < 2 ^ 63 - 1"
    using 1(3,4) by (auto simp: less_imp_le)
  have p: "send_ready (fst s) ?bs = (out, fst s', snd s')" using 1(5) by (simp add: order_push_def)
  have l: "?bs = out @ snd s'" "map b_Height out = [fst s..fst s + int (length out) - 1]"
    "fst s' = fst s + int (length out)" "\<forall>b \<in> set (snd s'). fst s' < b_Height b"
    using send_ready_law [OF p sorted_sort_key d k] 1(1) by auto
  have "mset out + mset (snd s') = mset (snd s) + mset xs"
    using arg_cong [OF l(1), of mset] by simp
  moreover have "distinct (map b_Height (snd s'))" using d unfolding l(1) by simp
  moreover have "\<forall>b \<in> set (snd s'). b_Height b < 2 ^ 63 - 1" using k unfolding l(1) by simp
  ultimately show ?case using l 1(1) by simp
qed

lemma rmapM_deref_Some: "rmapM deref xs = Inr ys \<longleftrightarrow> xs = map Some ys"
  by (induction xs arbitrary: ys) (auto simp: deref_def split: option.splits)

lemma orderBlock_feed:
  "orderBlock s (map (map Some) bss) = Inr (fst (block_order.feed s bss))"
proof (induction bss arbitrary: s)
  case (Cons bs bss)
  then show ?case using rmapM_deref [of bs] by (simp add: Let_def split: prod.splits)
qed simp

text \<open>
  C18: blocks are written in order.  However the concurrent workers deliver the blocks of a range of
  heights, and however they are grouped, \<open>orderBlock\<close> sends each of them exactly once in the order of
  their heights.
\<close>

theorem orderBlock_in_order:
  assumes "distinct (map b_Height (concat bss))" "b_Height ` set (concat bss) = {start..<b}"
    "start \<le> b" "- (2 ^ 63) \<le> start" "b < 2 ^ 63"
  shows "\<exists>out. orderBlock (start, []) (map (map Some) bss) = Inr out \<and>
    map b_Height out = [start..b - 1] \<and> mset out = mset (concat bss)"
proof -
  obtain out s' where f: "block_order.feed (start, []) bss = (out, s')" by (metis surj_pair)
  then have "map b_Height out = [start..b - 1] \<and> mset out = mset (concat bss)"
    using block_order.in_order [OF f] assms by simp
  then show ?thesis using f by (simp add: orderBlock_feed)
qed

section \<open>The mempool\<close>

definition budget :: "MempoolTx list \<Rightarrow> nat" where
  "budget q = (\<Sum>m\<leftarrow>q. nat (11 - m_Fails m))"

lemma mempool_step_budget:
  assumes "mempool_step bc (q, w) (q', w')" "\<forall>m \<in> set q. 0 \<le> m_Fails m \<and> m_Fails m \<le> 10"
  shows "budget q' < budget q \<and> (\<forall>m \<in> set q'. 0 \<le> m_Fails m \<and> m_Fails m \<le> 10)"
  using assms(1)
proof cases
  case (requeued m ts xs ys)
  then have "ts = m\<lparr>m_Fails := m_Fails m + 1\<rparr>" "m_Fails m < 10"
    by (auto simp: getMempoolTxs_def split: prod.splits sum.splits fault.splits if_splits)
  moreover have "0 \<le> m_Fails m" using assms(2) requeued by simp
  ultimately show ?thesis using assms(2) requeued by (auto simp: budget_def)
qed (use assms(2) in \<open>auto simp: budget_def\<close>)

text \<open>
  C38: no transaction of the mempool is requested more than eleven times.  In whatever order the
  workers take them from the channel, \<open>n\<close> announced transactions cause at most 11\<open>n\<close> requests.
\<close>

theorem mempool_requests_bounded:
  assumes "(mempool_step bc ^^ k) (q, w) (q', w')" "\<forall>m \<in> set q. m_Fails m = 0"
  shows "k \<le> 11 * length q"
proof -
  have "k + budget q' \<le> budget q \<and> (\<forall>m \<in> set q'. 0 \<le> m_Fails m \<and> m_Fails m \<le> 10)"
    using assms(1)
  proof (induction k arbitrary: q' w')
    case 0
    then show ?case using assms(2) by auto
  next
    case (Suc k)
    then obtain q1 w1 where s: "(mempool_step bc ^^ k) (q, w) (q1, w1)" "mempool_step bc (q1, w1) (q', w')"
      by auto
    then show ?case using Suc.IH [OF s(1)] mempool_step_budget [OF s(2)] by auto
  qed
  moreover have "budget q = 11 * length q"
    using assms(2) by (induction q) (auto simp: budget_def)
  ultimately show ?thesis by simp
qed

section \<open>Catching up\<close>

lemma sql_max_mem: "sql_max xs = Some m \<Longrightarrow> m \<in> set xs"
  by (induction xs arbitrary: m) (auto simp: max_def split: option.splits if_splits)

lemma LastBlock_undisturbed:
  assumes "c_plans w = []"
  shows "\<exists>r. LastBlock d w = (Inr r, w) \<and> map_option last_Height r = last_height (blocks (c_db w))"
proof (cases "last_height (blocks (c_db w))")
  case None
  then show ?thesis
    by (simp add: LastBlock_def QueryRow_def run_def undisturbed [OF assms])
next
  case (Some h)
  let ?rs = "filter (\<lambda>r. \<not> is_orphaned r \<and> height r = h) (blocks (c_db w))"
  have "h \<in> set (map height (filter (\<lambda>r. \<not> is_orphaned r) (blocks (c_db w))))"
    using sql_max_mem Some unfolding last_height_def by blast
  then have "?rs \<noteq> []" by (auto simp: filter_empty_conv)
  then obtain r rs where r: "?rs = r # rs" by (cases ?rs) auto
  then have "r \<in> set ?rs" by simp
  then have "height r = h" by simp
  then show ?thesis
    using Some r by (simp add: LastBlock_def QueryRow_def run_def undisturbed [OF assms] first_row_def)
qed

lemma blocks_from_honest:
  assumes "\<And>i w. i_GetBlocks bc (Heights [i]) w = (Inr [Some (blk i)], w)"
  shows "blocks_from bc n i w = (Inr (map (\<lambda>i. Some (blk i)) [i..i + int n - 1]), w)"
proof (induction n arbitrary: i)
  case (Suc n)
  have "[i..i + int (Suc n) - 1] = i # [i + 1..i + 1 + int n - 1]"
    by (subst upto_rec1) simp_all
  then show ?case using Suc [of "i + 1"] assms by simp
qed simp

text \<open>
  C39: a block notification catches up from the last active block.  With a node that answers, the
  blocks sent are those from the height of the last active block, which is sent again, up to the
  tip.  On a database without an active block the indexer panics instead of starting at 0.
\<close>

theorem syncToTip_from_last:
  assumes "\<forall>w. i_GetChainInfo bc w = (Inr info, w)"
    "\<forall>i w. i_GetBlocks bc (Heights [i]) w = (Inr [Some (blk i)], w)" "c_plans (snd w) = []"
  shows "case last_height (blocks (c_db (snd w))) of
      None \<Rightarrow> \<exists>m. fst (syncToTip bc (db_impl d) w) = Inl (Panic m)
    | Some l \<Rightarrow> fst (syncToTip bc (db_impl d) w) = Inr (map (\<lambda>i. Some (blk i)) [l..ci_Blocks info])"
proof -
  obtain r where r: "LastBlock d (snd w) = (Inr r, snd w)"
    "map_option last_Height r = last_height (blocks (c_db (snd w)))"
    using LastBlock_undisturbed [OF assms(3)] by blast
  have run: "syncToTip bc (db_impl d) w = iobind (iolift (deref r)) (\<lambda>l.
      blocks_from bc (nat (ci_Blocks info - last_Height l + 1)) (last_Height l)) w"
  proof -
    have "i_GetChainInfo bc w = (Inr info, w)" using assms(1) by blast
    moreover have "i_LastBlock (db_impl d) w = (Inr r, w)" by (simp add: db_impl_def on_snd_def r(1))
    ultimately show ?thesis by (simp add: syncToTip_def)
  qed
  show ?thesis
  proof (cases r)
    case None
    then have "last_height (blocks (c_db (snd w))) = None" using r(2) [symmetric] by simp
    then show ?thesis using run None by (simp add: deref_def)
  next
    case (Some l)
    have "[last_Height l..last_Height l + int (nat (ci_Blocks info - last_Height l + 1)) - 1] =
        [last_Height l..ci_Blocks info]"
      by (cases "last_Height l \<le> ci_Blocks info + 1") simp_all
    moreover have "last_height (blocks (c_db (snd w))) = Some (last_Height l)"
      using r(2) [symmetric] Some by simp
    ultimately show ?thesis
      using run Some blocks_from_honest [of bc blk, OF assms(2) [rule_format]]
      by (simp add: deref_def)
  qed
qed

section \<open>Concrete runs\<close>

definition sample_indexer :: Indexer where
  "sample_indexer = \<lparr>dbThreads = 2, rpcThreads = 2, startBlock = 3, endBlock = 7, syncTip = False,
     batchSize = 2, recover = False, notifyMonitor = False\<rparr>"

definition sample_info :: ChainInfo where
  "sample_info = \<lparr>ci_Chain = ''main'', ci_Blocks = 2, ci_Headers = 2, ci_BestBlockHash = [],
     ci_Difficulty = [], ci_SizeOnDisk = 0, ci_Version = [], ci_Subversion = [], ci_ProtocolVersion = [],
     ci_Timeoffset = 0, ci_Warnings = []\<rparr>"

definition sample_block :: "int \<Rightarrow> Block" where
  "sample_block h = with_txs (hdr (Itoa h) h (Itoa (h - 1))) []"

definition sample_node :: "'w BlockchainI" where
  "sample_node = \<lparr>i_GetBlocks = (\<lambda>v. ioret (case v of Heights hs \<Rightarrow> map (\<lambda>h. Some (sample_block h)) hs | _ \<Rightarrow> [])),
     i_GetChainInfo = ioret sample_info, i_GetMempool = ioret [''m''],
     i_GetRawTransactions = (\<lambda>hs. ioret [None])\<rparr>"

lemma sample_block_height [simp]: "b_Height (sample_block h) = h"
  by (simp add: sample_block_def hdr_def)

theorem processBlockHeights_covers_witness:
  "\<exists>bs. processBlockHeights sample_node sample_indexer 3 () = Some (Inr bs, ()) \<and> concat bs = [3..7] \<and>
     (\<forall>b \<in> set bs. b \<noteq> [] \<and> int (length b) \<le> 2)"
  using processBlockHeights_covers [of sample_node sample_indexer 7 3 "()"]
  by (simp add: settled_def sample_indexer_def)

theorem orderBlock_in_order_witness:
  "\<exists>out. orderBlock (0, []) [[Some (sample_block 2)], [Some (sample_block 0), Some (sample_block 1)]] = Inr out \<and>
     map b_Height out = [0, 1, 2]"
proof -
  have "b_Height ` set (concat [[sample_block 2], [sample_block 0, sample_block 1]]) = {0..<3}" by auto
  moreover have "[0..3 - 1] = [0, 1, 2 :: int]" by (simp add: upto_rec1)
  ultimately show ?thesis
    using orderBlock_in_order [of "[[sample_block 2], [sample_block 0, sample_block 1]]" 0 3] by auto
qed

theorem mempool_requests_bounded_witness:
  "(mempool_step sample_node ^^ 1) ([\<lparr>m_Hash = ''m'', m_Fails = 0\<rparr>], ()) ([], ()) \<and> (1 :: nat) \<le> 11 * 1"
proof -
  have "mempool_step sample_node ([] @ \<lparr>m_Hash = ''m'', m_Fails = 0\<rparr> # [], ()) ([] @ [], ())"
    by (rule mempool_step.fetched [where ts = "[None]"]) (simp add: getMempoolTxs_def sample_node_def)
  then have s: "(mempool_step sample_node ^^ 1) ([\<lparr>m_Hash = ''m'', m_Fails = 0\<rparr>], ()) ([], ())"
    by (simp add: relcompp_apply)
  from mempool_requests_bounded [OF s] show ?thesis using s by simp
qed

theorem syncToTip_from_last_witness:
  "fst (syncToTip sample_node (db_impl sample_handle) ((), sample_conn [])) =
     Inr [Some (sample_block 0), Some (sample_block 1), Some (sample_block 2)]"
proof -
  have "last_height (blocks (c_db (snd ((), sample_conn [])))) = Some 0"
    by (simp add: sample_conn_def sample_db_def last_height_def new_block_row_def hdr_def)
  moreover have "c_plans (snd ((), sample_conn [])) = []" by (simp add: sample_conn_def)
  moreover have "[0..2] = [0, 1, 2 :: int]" by (simp add: upto_rec1)
  ultimately show ?thesis
    using syncToTip_from_last [of sample_node sample_info sample_block "((), sample_conn [])" sample_handle]
    by (simp add: sample_node_def sample_info_def)
qed

end
