(* ===== verification/Indexer_Pipe.thy ===== *)
theory Indexer_Pipe
  imports Indexer_Order
begin

text \<open>
  The writing side of the indexer on the real database layer.  Whatever the interleaving of the
  writers, and whatever happens to the connection, a run that gets to its end has stored every
  transaction of every block under a row of its block; no run can get stuck or go on for ever.
\<close>

section \<open>What the procedures keep\<close>

text \<open>Blocks keep their identifier and hash; transactions keep their block unless told otherwise.\<close>

definition idents :: "db \<Rightarrow> (int \<times> string) set" where
  "idents s = (\<lambda>r. (blk_id r, block_hash r)) ` set (blocks s)"

definition places :: "db \<Rightarrow> (string \<times> int option) set" where
  "places s = (\<lambda>t. (t_txid t, t_block_id t)) ` set (txs s)"

definition positive :: "db \<Rightarrow> bool" where
  "positive s \<longleftrightarrow> 0 < block_seq s \<and> (\<forall>r \<in> set (blocks s). 0 < blk_id r)"

lemma idents_frozen:
  assumes "map frozen bs' = map frozen bs"
  shows "(\<lambda>r. (blk_id r, block_hash r)) ` set bs' = (\<lambda>r. (blk_id r, block_hash r)) ` set bs"
proof -
  have "(\<lambda>r. (blk_id r, block_hash r)) ` set bs = (\<lambda>(i, x, h, l). (i, x)) ` set (map frozen bs)" for bs
    by force
  then show ?thesis using assms by (simp only:)
qed

lemma block_insert_idents:
  assumes "block_insert pick b mined median rec s = Some (r, s')"
  shows "idents s \<subseteq> idents s' \<and> (\<forall>i. r = Inr i \<longrightarrow> (i, b_Hash b) \<in> idents s')"
  using assms
proof (cases rule: block_insert_cases)
  case unchanged
  then show ?thesis by auto
next
  case (known r')
  have "map frozen (blocks s') = map frozen (blocks s)" unfolding known(5) by simp
  then have "idents s' = idents s" unfolding idents_def by (rule idents_frozen)
  moreover have "(blk_id r', b_Hash b) \<in> idents s'" using known(3,4) unfolding idents_def by force
  ultimately show ?thesis using known(2) by auto
next
  case (new bs)
  let ?bs = "orphan_others (b_Hash b) (b_Height b) (link_prev pick (b_Hash b) (b_Height b) (blocks s)) @
         [new_block_row (block_seq s) b mined median]"
  have fz: "map frozen bs = map frozen ?bs"
    using new(4)
  proof (elim disjE conjE)
    assume "bs = ?bs"
    then show ?thesis by (simp only:)
  qed (rule validate_ancestors_keeps(1))
  let ?id = "\<lambda>r. (blk_id r, block_hash r)"
  have old: "?id ` set (orphan_others (b_Hash b) (b_Height b) (link_prev pick (b_Hash b) (b_Height b) (blocks s))) =
      ?id ` set (blocks s)"
    by (rule idents_frozen) simp
  have "idents s' = ?id ` set bs" unfolding idents_def new(3) by simp
  also have "\<dots> = ?id ` set ?bs" by (rule idents_frozen [OF fz])
  also have "\<dots> = insert (block_seq s, b_Hash b) (idents s)"
    unfolding set_append image_Un old idents_def by simp
  finally show ?thesis using new(2) by auto
qed

lemma block_insert_positive:
  assumes "block_insert pick b mined median rec s = Some (r, s')" "positive s"
  shows "positive s'"
proof -
  have "set (map blk_id (blocks s')) \<subseteq> insert (block_seq s) (set (map blk_id (blocks s))) \<and> block_seq s \<le> block_seq s'"
    using block_insert_ids(1) [OF assms(1)]
  proof (elim disjE conjE)
    assume a: "map blk_id (blocks s') = map blk_id (blocks s)" "block_seq s' = block_seq s"
    show ?thesis unfolding a by blast
  next
    assume a: "map blk_id (blocks s') = map blk_id (blocks s) @ [block_seq s]" "block_seq s' = block_seq s + 1"
    show ?thesis unfolding a by simp
  qed
  then have "0 < blk_id r" if "r \<in> set (blocks s')" for r
    using that assms(2) unfolding positive_def by fastforce
  moreover have "0 < block_seq s'"
    using block_insert_ids(1) [OF assms(1)] assms(2) by (auto simp: positive_def)
  ultimately show ?thesis by (simp add: positive_def)
qed

text \<open>What an \<open>InsertBlock\<close> on a bad connection does.\<close>

definition extends :: "db \<Rightarrow> db \<Rightarrow> bool" where
  "extends s s' \<longleftrightarrow> wf_db s' \<and> positive s' \<and> idents s \<subseteq> idents s' \<and> txs s' = txs s"

lemma call_block_insert_extends:
  assumes "call_block_insert d b mined median rec p s = (r, s')" "wf_db s" "positive s"
  shows "extends s s' \<and> (\<forall>i. r = Inr i \<longrightarrow> (i, b_Hash b) \<in> idents s')"
proof (cases "block_insert (p_pick p) b mined median rec s")
  case None
  then have "s' = s" "\<forall>i. r \<noteq> Inr i" using assms(1) by (auto simp: call_block_insert_def split: if_splits)
  then show ?thesis using assms(2,3) by (simp add: extends_def)
next
  case (Some x)
  then have x: "block_insert (p_pick p) b mined median rec s = Some (r, s')"
    using assms(1) by (simp add: call_block_insert_def)
  then show ?thesis
    using block_insert_idents [OF x] block_insert_positive [OF x assms(3)] block_insert_wf [OF x assms(2)]
      block_insert_ids(2) [OF x] by (auto simp: extends_def)
qed

lemma extends_trans: "extends s s' \<Longrightarrow> extends s' s'' \<Longrightarrow> extends s s''"
  by (auto simp: extends_def)

lemma InsertBlock_extends:
  assumes "InsertBlock d b rec w = (r, w')" "wf_db (c_db w)" "positive (c_db w)"
  shows "extends (c_db w) (c_db w') \<and> (\<forall>i. r = Inr i \<longrightarrow> (i, b_Hash b) \<in> idents (c_db w'))"
proof -
  let ?call = "\<lambda>diff. call_block_insert d ((blockObj b)\<lparr>b_Difficulty := diff\<rparr>) (b_Time b) (b_MedianTime b) rec"
  let ?fn = "iobind (iowrapf ''failed to marshal object'' (iolift (marshal_number (b_Difficulty b)))) (\<lambda>diff.
     iowrapf ''failed to insert block'' (QueryRow (?call diff)))"
  have hash: "b_Hash ((blockObj b)\<lparr>b_Difficulty := diff\<rparr>) = b_Hash b" for diff
    by (simp add: blockObj_def header_of_def BlockHeader.defs)
  have step: "extends (c_db w0) (c_db w1) \<and> (\<forall>i. r = Inr i \<longrightarrow> (i, b_Hash b) \<in> idents (c_db w1))"
    if f: "?fn w0 = (r, w1)" and wf: "wf_db (c_db w0)" "positive (c_db w0)" for r w0 w1
  proof (cases "marshal_number (b_Difficulty b)")
    case (Inl e)
    then have "w1 = w0" "\<forall>i. r \<noteq> Inr i"
      using f by (auto simp: iobind_def iowrapf_def split: sum.splits)
    then show ?thesis using wf by (simp add: extends_def)
  next
    case (Inr diff)
    obtain r0 s0 where c: "?call diff (next_plan w0) (c_db w0) = (r0, s0)" by fastforce
    have "iowrapf ''failed to insert block'' (QueryRow (?call diff)) w0 = (r, w1)"
      using f Inr by (simp add: iobind_def iowrapf_def)
    then have "c_db w1 = c_db w0 \<and> (\<forall>i. r \<noteq> Inr i) \<or> c_db w1 = s0 \<and> (\<forall>i. r = Inr i \<longrightarrow> r0 = Inr i)"
      using c by (auto simp: iowrapf_def QueryRow_def run_def split: outcome.splits if_splits)
    then show ?thesis
      using call_block_insert_extends [OF c wf] wf unfolding hash by (auto simp: extends_def)
  qed
  let ?P = "\<lambda>w0. extends (c_db w) (c_db w0)"
  have inv: "?P w1" if "?P w0" "?fn w0 = (r, w1)" for r w0 w1
    using that step [OF that(2)] extends_trans by (auto simp: extends_def)
  have start: "?P w" using assms(2,3) by (simp add: extends_def)
  have tries: "try_upto (nat (i64 (Attempts (d_retry d) - 1))) ?fn w = (r, w')"
    using assms(1) unfolding InsertBlock_def Simple_try_upto .
  have res: "?P w' \<and> (\<exists>w0. ?P w0 \<and> ?fn w0 = (r, w'))"
    by (rule try_upto_inv [where P = ?P, OF inv start tries])
  then obtain w0 where w0: "?P w0" "?fn w0 = (r, w')" by blast
  have "wf_db (c_db w0)" "positive (c_db w0)" using w0(1) by (simp_all add: extends_def)
  then have "\<forall>i. r = Inr i \<longrightarrow> (i, b_Hash b) \<in> idents (c_db w')" using step [OF w0(2)] by blast
  then show ?thesis using res by blast
qed

section \<open>Placing transactions\<close>

lemma transaction_insert_places:
  assumes "transaction_insert bid obj raw idx s = (Inr (), s')" "wf_db s" "bid \<noteq> -1"
  shows "(td_txid obj, Some bid) \<in> places s'"
    "\<And>x p. (x, p) \<in> places s \<Longrightarrow> x \<noteq> td_txid obj \<Longrightarrow> (x, p) \<in> places s'" "blocks s' = blocks s"
    "block_seq s' = block_seq s"
proof -
  obtain r where "r \<in> set (txs s')" "t_txid r = td_txid obj" "t_block_id r = Some bid"
    using transaction_insert_outcome [OF assms(2,1)] assms(3) by (auto simp: opt_of_def)
  then show "(td_txid obj, Some bid) \<in> places s'" unfolding places_def by force
  have "(\<forall>x p. (x, p) \<in> places s \<longrightarrow> x \<noteq> td_txid obj \<longrightarrow> (x, p) \<in> places s') \<and> blocks s' = blocks s \<and>
      block_seq s' = block_seq s"
    using assms(1)
  proof (cases rule: transaction_insert_cases)
    case failed
    then show ?thesis by simp
  next
    case pending
    then show ?thesis by simp
  next
    case (mined r)
    let ?f = "\<lambda>u. if t_id u = t_id r then u\<lparr>t_block_id := Some bid, t_index := opt_of idx\<rparr> else u"
    have m: "txs s' = map ?f (txs s)" "blocks s' = blocks s" "block_seq s' = block_seq s"
      unfolding mined(6) update_where_def by simp_all
    have "(x, p) \<in> places s'" if x: "(x, p) \<in> places s" "x \<noteq> td_txid obj" for x p
    proof -
      obtain u where u: "u \<in> set (txs s)" "t_txid u = x" "t_block_id u = p"
        using x(1) by (auto simp: places_def)
      have "u \<noteq> r" using u(2) x(2) mined(2) by blast
      then have "t_id u \<noteq> t_id r"
        using wf_dbD(2) [OF assms(2)] u(1) mined(1) by (metis distinct_map inj_onD)
      then have "u \<in> set (txs s')" unfolding m(1) using u(1) by force
      then show ?thesis using u(2,3) unfolding places_def by force
    qed
    then show ?thesis using m(2,3) by blast
  next
    case (inserted lt d2)
    let ?t = "new_tx_row (tx_seq s) (opt_of idx) (opt_of bid) obj raw lt"
    obtain ni k where d2: "d2 = s\<lparr>txs := txs s @ [?t], tx_seq := tx_seq s + 1, inputs := inputs s @ ni, input_seq := k\<rparr>"
      using input_insert_grows [OF inserted(5)] by auto
    obtain no k' where d': "s' = d2\<lparr>outputs := outputs d2 @ no, output_seq := k'\<rparr>"
      using output_insert_grows [OF inserted(6)] by auto
    have "txs s' = txs s @ [?t]" "blocks s' = blocks s" "block_seq s' = block_seq s" unfolding d' d2 by simp_all
    then show ?thesis unfolding places_def by auto
  qed
  then show "\<And>x p. (x, p) \<in> places s \<Longrightarrow> x \<noteq> td_txid obj \<Longrightarrow> (x, p) \<in> places s'" "blocks s' = blocks s"
    "block_seq s' = block_seq s"
    by blast+
qed

abbreviation r_txid :: "txResult \<Rightarrow> string" where
  "r_txid r \<equiv> tx_TxID (r_tx r)"

lemma txObj_txid: "txObj t = Inr obj \<Longrightarrow> td_txid obj = tx_TxID t"
  by (rule txObj_Inr(1))

lemma writeTx_places:
  assumes "writeTx (db_impl d) r w = (Inr (), w')" "wf_db (c_db (snd w))" "r_blockId r \<noteq> -1" "in_i32 (r_index r)"
  shows "(r_txid r, Some (r_blockId r)) \<in> places (c_db (snd w'))"
    "\<And>x p. (x, p) \<in> places (c_db (snd w)) \<Longrightarrow> x \<noteq> r_txid r \<Longrightarrow> (x, p) \<in> places (c_db (snd w'))"
    "blocks (c_db (snd w')) = blocks (c_db (snd w))" "block_seq (c_db (snd w')) = block_seq (c_db (snd w))"
    "wf_db (c_db (snd w'))"
proof -
  let ?t = "if tx_Hash (r_tx r) = [] then (r_tx r)\<lparr>tx_Hash := tx_TxID (r_tx r)\<rparr> else r_tx r"
  have id: "tx_TxID ?t = r_txid r" by simp
  obtain c where c: "InsertTx d ?t (r_index r) (r_blockId r) (snd w) = (Inr (), c)" "w' = (fst w, c)"
    using assms(1) by (auto simp: writeTx_def Let_def db_impl_def on_snd_def split: prod.splits)
  then obtain obj where obj: "txObj ?t = Inr obj"
    unfolding InsertTx_def by (auto elim!: iobind_eq_InrE)
  have run: "transaction_insert (r_blockId r) obj (tx_Hex ?t) (r_index r) (c_db (snd w)) = (Inr (), c_db c)"
    using insert_tx.exactly_once [OF _ c(1) [unfolded InsertTx_retries [OF obj]]] assms(2,4) by blast
  note p = transaction_insert_places [OF run assms(2,3), unfolded txObj_txid [OF obj] id]
  show "(r_txid r, Some (r_blockId r)) \<in> places (c_db (snd w'))"
    "\<And>x p. (x, p) \<in> places (c_db (snd w)) \<Longrightarrow> x \<noteq> r_txid r \<Longrightarrow> (x, p) \<in> places (c_db (snd w'))"
    "blocks (c_db (snd w')) = blocks (c_db (snd w))" "block_seq (c_db (snd w')) = block_seq (c_db (snd w))"
    using p unfolding c(2) by simp_all
  show "wf_db (c_db (snd w'))" using transaction_insert_wf [OF run assms(2)] unfolding c(2) by simp
qed

section \<open>The pipeline\<close>

lemma tx_results_mem:
  "r \<in> set (tx_results i k ts) \<Longrightarrow>
    r_tx r \<in> set ts \<and> r_blockId r = i \<and> k \<le> r_index r \<and> r_index r < k + int (length ts)"
  by (induction ts arbitrary: k) force+

lemma tx_results_all: "t \<in> set ts \<Longrightarrow> \<exists>r \<in> set (tx_results i k ts). r_tx r = t \<and> r_blockId r = i"
  by (induction ts arbitrary: k) auto

definition txids_of :: "Block list \<Rightarrow> string list" where
  "txids_of bs = concat (map (\<lambda>b. map tx_TxID (b_Txs b)) bs)"

abbreviation finished :: "'w pipe \<Rightarrow> bool" where
  "finished p \<equiv> to_write p = [] \<and> sending p = [] \<and> writing p = []"

text \<open>
  The invariant: \<open>D\<close> are the blocks already taken.  Each of their transactions is on its way with the
  identifier of its block or is stored under it.
\<close>

definition located :: "Block list \<Rightarrow> ('n \<times> conn) pipe \<Rightarrow> Block \<Rightarrow> Tx \<Rightarrow> bool" where
  "located D p b t \<longleftrightarrow> (\<exists>i. (i, b_Hash b) \<in> idents (c_db (snd (world p))) \<and>
     ((\<exists>r \<in> set (sending p) \<union> set (writing p). r_tx r = t \<and> r_blockId r = i) \<or>
      (tx_TxID t, Some i) \<in> places (c_db (snd (world p)))))"

definition pipe_inv :: "Block list \<Rightarrow> Block list \<Rightarrow> ('n \<times> conn) pipe \<Rightarrow> bool" where
  "pipe_inv bs D p \<longleftrightarrow> bs = D @ to_write p \<and> wf_db (c_db (snd (world p))) \<and>
     positive (c_db (snd (world p))) \<and>
     (\<forall>b \<in> set D. \<forall>t \<in> set (b_Txs b). located D p b t) \<and>
     (\<forall>r \<in> set (sending p) \<union> set (writing p). in_i32 (r_index r) \<and> r_blockId r \<noteq> -1 \<and>
        (\<exists>b \<in> set D. r_tx r \<in> set (b_Txs b) \<and> (r_blockId r, b_Hash b) \<in> idents (c_db (snd (world p)))))"

lemma txids_unique:
  assumes "distinct (txids_of bs)" "b \<in> set bs" "b' \<in> set bs" "t \<in> set (b_Txs b)" "t' \<in> set (b_Txs b')"
    "tx_TxID t = tx_TxID t'"
  shows "b = b' \<and> t = t'"
  using assms
proof (induction bs)
  case (Cons c cs)
  have d: "distinct (map tx_TxID (b_Txs c))" "distinct (txids_of cs)"
    "set (map tx_TxID (b_Txs c)) \<inter> set (txids_of cs) = {}"
    using Cons.prems(1) by (simp_all add: txids_of_def)
  have mem: "tx_TxID u \<in> set (txids_of cs)" if "x \<in> set cs" "u \<in> set (b_Txs x)" for x u
    using that by (auto simp: txids_of_def)
  have memc: "tx_TxID u \<in> set (map tx_TxID (b_Txs c))" if "u \<in> set (b_Txs c)" for u using that by simp
  consider "b = c" "b' = c" | "b = c" "b' \<in> set cs" | "b \<in> set cs" "b' = c" | "b \<in> set cs" "b' \<in> set cs"
    using Cons.prems(2,3) by auto
  then show ?case
  proof cases
    case 1
    then show ?thesis using d(1) Cons.prems(4-6) by (auto simp: distinct_map dest: inj_onD)
  next
    case 2
    then show ?thesis using d(3) mem [OF 2(2) Cons.prems(5)] memc [of t] Cons.prems(4,6) by auto
  next
    case 3
    then show ?thesis using d(3) mem [OF 3(1) Cons.prems(4)] memc [of t'] Cons.prems(5,6) by auto
  next
    case 4
    then show ?thesis using Cons.IH [OF d(2)] Cons.prems(4-6) by blast
  qed
qed simp

lemma pipe_step_inv:
  assumes "pipe_step (db_impl d) ix p p'" "pipe_inv bs D p" "distinct (txids_of bs)"
    "\<forall>b \<in> set bs. length (b_Txs b) < 2 ^ 31"
  shows "\<exists>D'. pipe_inv bs D' p'"
  using assms(1)
proof cases
  case (block b rest rs note' w')
  let ?s = "c_db (snd (world p))" and ?s' = "c_db (snd w')"
  have inv: "bs = D @ b # rest" "wf_db ?s" "positive ?s" "\<forall>b \<in> set D. \<forall>t \<in> set (b_Txs b). located D p b t"
    "\<forall>r \<in> set (writing p). in_i32 (r_index r) \<and> r_blockId r \<noteq> -1 \<and>
        (\<exists>b \<in> set D. r_tx r \<in> set (b_Txs b) \<and> (r_blockId r, b_Hash b) \<in> idents ?s)"
    using assms(2) block(2,3) by (simp_all add: pipe_inv_def)
  obtain i c where i: "InsertBlock d b (recover ix) (snd (world p)) = (Inr i, c)" "rs = tx_results i 0 (b_Txs b)"
    "snd w' = c"
    using block(4) by (auto simp: writeBlock_def db_impl_def on_snd_def elim!: iobind_eq_InrE split: prod.splits)
  have e: "wf_db ?s'" "positive ?s'" "idents ?s \<subseteq> idents ?s'" "places ?s' = places ?s" "(i, b_Hash b) \<in> idents ?s'"
    using InsertBlock_extends [OF i(1) inv(2,3)] unfolding i(3) by (auto simp: extends_def places_def)
  have ipos: "0 < i" using e(2,5) by (auto simp: positive_def idents_def)
  have "located (D @ [b]) p' b' t" if b': "b' \<in> set (D @ [b])" "t \<in> set (b_Txs b')" for b' t
  proof (cases "b' \<in> set D")
    case True
    then have "located D p b' t" using inv(4) b'(2) by blast
    then show ?thesis using e(3,4) block(1,3) unfolding located_def by auto
  next
    case False
    then have "b' = b" using b'(1) by simp
    then show ?thesis
      using tx_results_all [OF b'(2), of i 0] e(5) unfolding located_def block(1) i(2) by auto
  qed
  moreover have "in_i32 (r_index r) \<and> r_blockId r \<noteq> -1 \<and>
      (\<exists>b \<in> set (D @ [b]). r_tx r \<in> set (b_Txs b) \<and> (r_blockId r, b_Hash b) \<in> idents ?s')"
    if r: "r \<in> set (sending p') \<union> set (writing p')" for r
  proof (cases "r \<in> set rs")
    case True
    have "length (b_Txs b) < 2 ^ 31" using assms(4) inv(1) by simp
    then show ?thesis
      using tx_results_mem [OF True [unfolded i(2)]] ipos e(5) by (auto simp: in_i32_def)
  next
    case False
    then have "r \<in> set (writing p)" using r block(1) by simp
    then show ?thesis using inv(5) e(3) by fastforce
  qed
  ultimately have "pipe_inv bs (D @ [b]) p'"
    using inv(1) e(1,2) unfolding pipe_inv_def block(1) by simp
  then show ?thesis by blast
next
  case (hand_over r rs)
  have "set (sending p') \<union> set (writing p') = set (sending p) \<union> set (writing p)"
    unfolding hand_over(1) using hand_over(2) by auto
  then have "pipe_inv bs D p'"
    using assms(2) unfolding pipe_inv_def located_def by (simp add: hand_over(1))
  then show ?thesis by blast
next
  case (tx xs r ys w')
  let ?s = "c_db (snd (world p))" and ?s' = "c_db (snd w')"
  have inv: "bs = D @ to_write p" "wf_db ?s" "positive ?s" "\<forall>b \<in> set D. \<forall>t \<in> set (b_Txs b). located D p b t"
    "\<forall>r \<in> set (sending p) \<union> set (writing p). in_i32 (r_index r) \<and> r_blockId r \<noteq> -1 \<and>
        (\<exists>b \<in> set D. r_tx r \<in> set (b_Txs b) \<and> (r_blockId r, b_Hash b) \<in> idents ?s)"
    using assms(2) by (simp_all add: pipe_inv_def)
  have "r \<in> set (writing p)" using tx(2) by simp
  then obtain rb where r: "in_i32 (r_index r)" "r_blockId r \<noteq> -1" "rb \<in> set D" "r_tx r \<in> set (b_Txs rb)"
    "(r_blockId r, b_Hash rb) \<in> idents ?s" using inv(5) by blast
  note pl = writeTx_places [OF tx(3) inv(2) r(2,1)]
  have same: "idents ?s' = idents ?s" "positive ?s'"
    using pl(3,4) inv(3) by (simp_all add: idents_def positive_def)
  have pend: "set (sending p') \<union> set (writing p') \<subseteq> set (sending p) \<union> set (writing p)"
    unfolding tx(1) using tx(2) by auto
  have "located D p' b t" if bt: "b \<in> set D" "t \<in> set (b_Txs b)" for b t
  proof (cases "tx_TxID t = r_txid r")
    case True
    then have "b = rb \<and> t = r_tx r"
      using txids_unique [OF assms(3), of b rb t "r_tx r"] bt r(3,4) inv(1) by simp
    then show ?thesis using pl(1) r(5) same(1) unfolding located_def tx(1) by auto
  next
    case False
    obtain i where i: "(i, b_Hash b) \<in> idents ?s"
      "(\<exists>r \<in> set (sending p) \<union> set (writing p). r_tx r = t \<and> r_blockId r = i) \<or> (tx_TxID t, Some i) \<in> places ?s"
      using inv(4) bt unfolding located_def by blast
    have "(\<exists>r \<in> set (sending p') \<union> set (writing p'). r_tx r = t \<and> r_blockId r = i) \<or> (tx_TxID t, Some i) \<in> places ?s'"
      using i(2)
    proof
      assume "\<exists>r \<in> set (sending p) \<union> set (writing p). r_tx r = t \<and> r_blockId r = i"
      then obtain u where u: "u \<in> set (sending p) \<union> set (writing p)" "r_tx u = t" "r_blockId u = i" by blast
      moreover have "u \<noteq> r" using u(2) False by blast
      ultimately show ?thesis unfolding tx(1) using tx(2) by auto
    next
      assume "(tx_TxID t, Some i) \<in> places ?s"
      then show ?thesis using pl(2) False by blast
    qed
    then show ?thesis using i(1) same(1) unfolding located_def tx(1) by auto
  qed
  then have "pipe_inv bs D p'"
    using inv(1,5) pl(5) same pend unfolding pipe_inv_def tx(1) by auto
  then show ?thesis by blast
qed

definition start_pipe :: "Block list \<Rightarrow> 'w \<Rightarrow> 'w pipe" where
  "start_pipe bs w = \<lparr>to_write = bs, sending = [], writing = [], world = w\<rparr>"

lemma pipe_run_inv:
  assumes "(pipe_step (db_impl d) ix)\<^sup>*\<^sup>* (start_pipe bs w) p" "wf_db (c_db (snd w))" "positive (c_db (snd w))"
    "distinct (txids_of bs)" "\<forall>b \<in> set bs. length (b_Txs b) < 2 ^ 31"
  shows "\<exists>D. pipe_inv bs D p"
  using assms(1)
proof (induction rule: rtranclp_induct)
  case base
  show ?case using assms(2,3) by (auto simp: pipe_inv_def start_pipe_def)
next
  case (step p p')
  then show ?case using pipe_step_inv [OF step.hyps(2) _ assms(4,5)] by blast
qed

text \<open>
  C4: whatever the order in which the writers finish and whatever happens to the connection, a run
  of the writing side that reaches its end has stored every transaction of every block under the
  identifier of a row with the hash of that block.
\<close>

theorem pipeline_complete:
  assumes "(pipe_step (db_impl d) ix)\<^sup>*\<^sup>* (start_pipe bs w) p" "finished p"
    "wf_db (c_db (snd w))" "positive (c_db (snd w))"
    "distinct (txids_of bs)" "\<forall>b \<in> set bs. length (b_Txs b) < 2 ^ 31"
  shows "wf_db (c_db (snd (world p))) \<and>
    (\<forall>b \<in> set bs. \<forall>t \<in> set (b_Txs b). \<exists>i. (i, b_Hash b) \<in> idents (c_db (snd (world p))) \<and>
       (tx_TxID t, Some i) \<in> places (c_db (snd (world p))))"
proof -
  obtain D where "pipe_inv bs D p" using pipe_run_inv [OF assms(1,3-6)] by blast
  then show ?thesis using assms(2) by (auto simp: pipe_inv_def located_def)
qed

definition work :: "'w pipe \<Rightarrow> nat" where
  "work p = (\<Sum>b \<leftarrow> to_write p. 2 * length (b_Txs b) + 1) + 2 * length (sending p) + length (writing p)"

lemma length_tx_results [simp]: "length (tx_results i k ts) = length ts"
  by (induction ts arbitrary: k) simp_all

lemma pipe_step_work: "pipe_step db ix p p' \<Longrightarrow> work p' < work p"
  by (erule pipe_step.cases) (auto simp: work_def writeBlock_def elim!: iobind_eq_InrE)

lemma pipe_steps_work: "(pipe_step db ix ^^ n) p p' \<Longrightarrow> n + work p' \<le> work p"
proof (induction n arbitrary: p')
  case (Suc n)
  then obtain q where q: "(pipe_step db ix ^^ n) p q" "pipe_step db ix q p'" by auto
  show ?case using Suc.IH [OF q(1)] pipe_step_work [OF q(2)] by simp
qed simp

lemma iofatal_Inr: "f w = (Inr x, w') \<Longrightarrow> iofatal s f w = (Inr x, w')"
  by (simp add: iofatal_def)

lemma pipe_step_possible:
  assumes "0 < dbThreads ix" "\<And>b w. \<exists>i w'. i_InsertBlock db b (recover ix) w = (Inr i, w')"
    "\<And>t n i w. \<exists>w'. i_InsertTx db t n i w = (Inr (), w')" "\<not> finished p"
  shows "\<exists>p'. pipe_step db ix p p'"
proof (cases "writing p")
  case (Cons r rs)
  obtain w' where "writeTx db r (world p) = (Inr (), w')"
    using assms(3) unfolding writeTx_def Let_def by (meson iofatal_Inr)
  then show ?thesis using pipe_step.tx [of p "[]" r rs db w' ix] Cons by auto
next
  case Nil
  show ?thesis
  proof (cases "sending p")
    case (Cons r rs)
    then show ?thesis using pipe_step.hand_over [OF Cons] Nil assms(1) by auto
  next
    case sending: Nil
    then obtain b bs where b: "to_write p = b # bs" using assms(4) Nil by (cases "to_write p") auto
    obtain i w' where "i_InsertBlock db b (recover ix) (world p) = (Inr i, w')" using assms(2) by blast
    then have "writeBlock db ix b (world p) = (Inr (tx_results i 0 (b_Txs b), notifyMonitor ix), w')"
      by (simp add: writeBlock_def iobind_def iofatal_Inr ioret_def)
    then show ?thesis using pipe_step.block [OF b sending] by blast
  qed
qed


section \<open>Concrete runs\<close>

definition sample_full_block :: Block where
  "sample_full_block = with_txs ((hdr ''h'' 1 ''g'')\<lparr>b_Difficulty := ''1''\<rparr>) [coin_tx]"

lemma sample_full_inserted:
  obtains w where "InsertBlock sample_handle sample_full_block False (sample_conn []) = (Inr 2, w)"
    "c_plans w = []" "txs (c_db w) = txs sample_db" "2 \<in> blk_id ` set (blocks (c_db w))"
proof -
  obtain r w where rw: "InsertBlock sample_handle sample_full_block False (sample_conn []) = (r, w)"
    by (metis surj_pair)
  have "case InsertBlock sample_handle sample_full_block False (sample_conn []) of (r, w) \<Rightarrow>
     (case r of Inr i \<Rightarrow> i = 2 | _ \<Rightarrow> False) \<and> (case c_plans w of [] \<Rightarrow> True | _ \<Rightarrow> False) \<and> txs (c_db w) = txs sample_db \<and>
     2 \<in> blk_id ` set (blocks (c_db w))"
    by code_simp
  then show thesis using that [of w] rw by (auto split: sum.splits list.splits)
qed

lemma coin_placed:
  assumes "txs s = txs sample_db" "2 \<in> blk_id ` set (blocks s)" "wf_db s"
  shows "\<exists>s'. transaction_insert 2 coin_obj ''00'' 0 s = (Inr (), s')"
proof -
  have "ParseInt ''0'' = (0, None)"
    using ParseInt_digits [of "''0''"] by (simp add: digit_val_def)
  then show ?thesis
    using assms
    by (simp add: transaction_insert_def coin_obj_def coin_tx_def sample_db_def sample_row_def
        opt_of_def tx_i32_def in_i32_def block_id_ok_def Let_def)
qed

lemma sample_run:
  obtains p where "(pipe_step (db_impl sample_handle) sample_indexer)\<^sup>*\<^sup>*
      (start_pipe [sample_full_block] ((), sample_conn [])) p" "finished p"
proof -
  let ?ix = sample_indexer and ?db = "db_impl sample_handle" and ?w = "((), sample_conn [])"
  let ?r = "\<lparr>r_tx = coin_tx, r_index = 0, r_blockId = 2\<rparr>"
  obtain w where w: "InsertBlock sample_handle sample_full_block False (sample_conn []) = (Inr 2, w)"
    "c_plans w = []" "txs (c_db w) = txs sample_db" "2 \<in> blk_id ` set (blocks (c_db w))"
    using sample_full_inserted .
  have wf: "wf_db (c_db w)"
    using InsertBlock_extends [OF w(1)] sample_db_wf
    by (simp add: sample_conn_def extends_def positive_def sample_db_def new_block_row_def)
  have "writeBlock ?db ?ix sample_full_block ?w = (Inr ([?r], False), ((), w))"
    using w(1) by (simp add: writeBlock_def iobind_def iofatal_Inr ioret_def db_impl_def on_snd_def
        sample_indexer_def sample_full_block_def)
  then have 1: "pipe_step ?db ?ix (start_pipe [sample_full_block] ?w)
      \<lparr>to_write = [], sending = [?r], writing = [], world = ((), w)\<rparr>"
    using pipe_step.block [of "start_pipe [sample_full_block] ?w" sample_full_block "[]" ?db ?ix "[?r]" False]
    by (simp add: start_pipe_def)
  have 2: "pipe_step ?db ?ix \<lparr>to_write = [], sending = [?r], writing = [], world = ((), w)\<rparr>
      \<lparr>to_write = [], sending = [], writing = [?r], world = ((), w)\<rparr>"
    using pipe_step.hand_over [of "\<lparr>to_write = [], sending = [?r], writing = [], world = ((), w)\<rparr>" ?r "[]" ?ix ?db]
    by (simp add: sample_indexer_def)
  obtain s' where s': "transaction_insert 2 coin_obj (tx_Hex coin_tx) 0 (c_db w) = (Inr (), s')"
    using coin_placed [OF w(3,4) wf] by (auto simp: coin_tx_def)
  have "(0 :: nat) \<le> nat (i64 (Attempts (d_retry sample_handle) - 1))" "outcome_at w 0 = Done"
    "wf_db (c_db w) \<and> in_i32 0"
    using wf w(2) by (simp_all add: outcome_at_def in_i32_def)
  then obtain w' where "InsertTx sample_handle coin_tx 0 2 w = (Inr (), w')"
    using insert_tx.live [OF _ s'] unfolding InsertTx_retries [OF coin_obj] by blast
  then have "writeTx ?db ?r ((), w) = (Inr (), ((), w'))"
    by (simp add: writeTx_def Let_def iofatal_Inr db_impl_def on_snd_def coin_tx_def)
  then have 3: "pipe_step ?db ?ix \<lparr>to_write = [], sending = [], writing = [?r], world = ((), w)\<rparr>
      \<lparr>to_write = [], sending = [], writing = [], world = ((), w')\<rparr>"
    using pipe_step.tx [of "\<lparr>to_write = [], sending = [], writing = [?r], world = ((), w)\<rparr>" "[]" ?r "[]" ?db]
    by simp
  show thesis
    by (rule that [of "\<lparr>to_write = [], sending = [], writing = [], world = ((), w')\<rparr>"])
      (use 1 2 3 in \<open>auto intro: converse_rtranclp_into_rtranclp\<close>)
qed

theorem pipeline_complete_witness:
  "\<exists>p. (pipe_step (db_impl sample_handle) sample_indexer)\<^sup>*\<^sup>*
      (start_pipe [sample_full_block] ((), sample_conn [])) p \<and>
     (\<exists>i. (i, ''h'') \<in> idents (c_db (snd (world p))) \<and> (''c'', Some i) \<in> places (c_db (snd (world p))))"
proof -
  obtain p where p: "(pipe_step (db_impl sample_handle) sample_indexer)\<^sup>*\<^sup>*
      (start_pipe [sample_full_block] ((), sample_conn [])) p" "finished p" using sample_run .
  have "wf_db (c_db (snd ((), sample_conn [])))" "positive (c_db (snd ((), sample_conn [])))"
    "distinct (txids_of [sample_full_block])" "\<forall>b \<in> set [sample_full_block]. length (b_Txs b) < 2 ^ 31"
    using sample_db_wf
    by (simp_all add: sample_conn_def positive_def sample_db_def new_block_row_def txids_of_def sample_full_block_def)
  from pipeline_complete [OF p this] show ?thesis
    using p(1) by (intro exI [of _ p]) (simp add: sample_full_block_def coin_tx_def hdr_def)
qed

definition accepting_db :: "unit DatabaseI" where
  "accepting_db = \<lparr>i_LastBlock = ioret None, i_InsertBlock = (\<lambda>b r. ioret 1),
     i_GetBlock = (\<lambda>v. ioret (hdr [] 0 [])), i_InsertTx = (\<lambda>t i b. ioret ())\<rparr>"


end
