(* ===== verification/BlockValidator.thy ===== *)
theory BlockValidator
  imports Indexer_Pipe "HOL-Library.AList"
begin

text \<open>
  The block validator (\<open>cmd/blockvalidator/main.go\<close>).  The stages are operations on what they
  receive; checking and repairing, which run concurrently, are a step relation.  The results put back
  in order are a second instance of the reorder buffer.
\<close>

section \<open>The validator\<close>

definition revalidateOffset :: "string \<Rightarrow> int" where
  "revalidateOffset c = (case map_of [(''bch'', 10), (''btc'', 10), (''dash'', 50), (''dgb'', 250),
     (''doge'', 100), (''ltc'', 50)] c of None \<Rightarrow> 0 | Some n \<Rightarrow> n)"

text \<open>\<open>doneChan\<close> is the flag \<open>v_done\<close>: whether it has been closed.\<close>

record blockValidator =
  blocksValidated :: int
  v_dbThreads :: int
  v_rpcThreads :: int
  v_startBlock :: int
  totalBlocks :: int
  v_done :: bool

record blockResult =
  dbHash :: string
  dbTxIds :: "string list"
  nodeBlock :: Block

definition newBlockValidator :: "Config \<Rightarrow> string \<Rightarrow> (DB_cfg \<Rightarrow> Database result) \<Rightarrow>
    (blockValidator \<times> Database) result" where
  "newBlockValidator c coin newdb =
    rbind (fatal ''main'' (GetCoin c coin)) (\<lambda>cc.
    rbind (fatal ''main'' (GetDBConfig c ReadWrite cc)) (\<lambda>dbConfig.
    rbind (fatal ''main'' (newdb dbConfig)) (\<lambda>d.
    Inr (\<lparr>blocksValidated = 0, v_dbThreads = db_Threads (DB_BaseDB dbConfig),
      v_rpcThreads = rpc_Threads (RPC_BaseRPC (GetRPCConfig c cc)), v_startBlock = 0, totalBlocks = 0,
      v_done = False\<rparr>, d))))"

text \<open>The heights are queued on a channel of exactly that capacity.\<close>

definition generateBlockHeights :: "Database \<Rightarrow> blockValidator \<Rightarrow> (conn, blockValidator \<times> int list) io" where
  "generateBlockHeights d v =
    iobind (iofatal ''failed to get start block'' (Get_key d ''validatedBlock'')) (\<lambda>value.
    case Atoi value of
      (_, Some e) \<Rightarrow> iofail (Exit ''failed to convert block'')
    | (start, None) \<Rightarrow>
        iobind (iofatal ''failed to get end block'' (LastBlock d)) (\<lambda>blk.
        iobind (iolift (deref blk)) (\<lambda>b.
        let endBlock = last_Height b; total = i64 (i64 (endBlock - start) + 1) in
        if total < 0 then iofail (Panic ''makechan: size out of range'')
        else ioret (v\<lparr>v_startBlock := start, totalBlocks := total\<rparr>, [start..endBlock]))))"

text \<open>One round of \<open>getBlock\<close> and of \<open>readBlock\<close>.\<close>

definition getBlock :: "'n net \<Rightarrow> Blockchain \<Rightarrow> int \<Rightarrow> ('n, Block option) io" where
  "getBlock net bc h =
    iobind (iofatal ''main'' (GetBlocks net bc (Heights [h]))) (\<lambda>b.
    case b of [] \<Rightarrow> iofail (Panic ''index out of range'') | x # _ \<Rightarrow> ioret x)"

definition readBlock :: "Database \<Rightarrow> Block option \<Rightarrow> (conn, blockResult) io" where
  "readBlock d p =
    iobind (iolift (deref p)) (\<lambda>nb.
    iobind (iofatal ''failed to read block'' (GetBlock d (ByHeight (b_Height nb)))) (\<lambda>dbBlock.
    iobind (iofatal ''failed to read block'' (GetTxHashesByBlockHash d (b_Hash dbBlock) None None)) (\<lambda>dbTxHashes.
    ioret \<lparr>dbHash = b_Hash dbBlock, dbTxIds = dbTxHashes, nodeBlock = nb\<rparr>)))"

section \<open>Ordering\<close>

abbreviation r_height :: "blockResult \<Rightarrow> int" where
  "r_height r \<equiv> b_Height (nodeBlock r)"

type_synonym results = "(int \<times> blockResult) list"

text \<open>The inner loop of \<open>orderResults\<close>; the map shrinks with every result sent.\<close>

function send_found :: "int \<Rightarrow> results \<Rightarrow> blockResult list \<times> int \<times> results" where
  "send_found nextBlock results =
    (case map_of results nextBlock of
       None \<Rightarrow> ([], nextBlock, results)
     | Some r \<Rightarrow>
         let (sent, s) = send_found (i64 (nextBlock + 1)) (AList.delete nextBlock results)
         in (r # sent, s))"
  by pat_completeness auto

lemma length_delete_found: "map_of m k = Some x \<Longrightarrow> length (AList.delete k m) < length m"
  unfolding AList.delete_eq using length_filter_less [of "(k, x)" m] by (auto dest: map_of_SomeD)

termination send_found
  by (relation "measure (\<lambda>(n, m). length m)") (auto simp: length_delete_found)

declare send_found.simps [simp del]

definition take_results :: "int \<times> results \<Rightarrow> blockResult list \<Rightarrow> blockResult list \<times> int \<times> results" where
  "take_results s rs = send_found (fst s) (fold (\<lambda>r. AList.update (r_height r) r) rs (snd s))"

fun orderResults :: "int \<times> results \<Rightarrow> blockResult list \<Rightarrow> blockResult list \<times> int \<times> results" where
  "orderResults s [] = ([], s)"
| "orderResults s (r # rs) =
    (let (sent, s1) = take_results s [r]; (out, s2) = orderResults s1 rs in (sent @ out, s2))"

section \<open>Checking and repairing\<close>

text \<open>The block to repair, or nothing for a valid one.\<close>

definition checkResult :: "blockResult \<Rightarrow> Block option" where
  "checkResult r =
    (if b_Hash (nodeBlock r) \<noteq> dbHash r then Some (nodeBlock r)
     else if length (b_Txs (nodeBlock r)) \<noteq> length (dbTxIds r) then
       Some ((nodeBlock r)\<lparr>b_Txs := filter (\<lambda>t. tx_TxID t \<notin> set (dbTxIds r)) (b_Txs (nodeBlock r))\<rparr>)
     else None)"

definition blockValidated :: "string \<Rightarrow> Database \<Rightarrow> blockValidator \<Rightarrow> (conn, blockValidator) io" where
  "blockValidated coin d v =
    iobind
      (if i64 (blocksValidated v + revalidateOffset (ToLower coin)) \<le> totalBlocks v then
         iofatal ''failed to update validatedBlock''
           (Set_key d ''validatedBlock'' (Itoa (i64 (v_startBlock v + blocksValidated v))))
       else ioret ()) (\<lambda>_.
    let v' = v\<lparr>blocksValidated := i64 (blocksValidated v + 1)\<rparr> in
    if blocksValidated v' \<noteq> totalBlocks v' then ioret v'
    else if v_done v' then iofail (Panic ''close of closed channel'')
    else ioret (v'\<lparr>v_done := True\<rparr>))"

text \<open>One transaction of a repair.\<close>

definition repairTx :: "Database \<Rightarrow> txResult \<Rightarrow> (conn, unit) io" where
  "repairTx d r =
    (let t = (if tx_Hash (r_tx r) = [] then (r_tx r)\<lparr>tx_Hash := tx_TxID (r_tx r)\<rparr> else r_tx r) in
     InsertTx d t (r_index r) (r_blockId r))"

text \<open>
  The state of a running validation: the ordered results not checked yet, the blocks on their way to
  \<open>repairBlock\<close>, and the repairs under way with the transactions not written yet.
\<close>

record job =
  j_block :: Block
  j_pending :: "txResult list"
  j_failed :: bool

record validation =
  vd_v :: blockValidator
  vd_results :: "blockResult list"
  vd_repair :: "Block list"
  vd_jobs :: "job list"
  vd_conn :: conn

text \<open>
  Sending on \<open>repairChan\<close> happens in goroutines of their own, so a repair can start with any block on
  its way.  Each repair has \<open>dbThreads\<close> writers, which take its transactions in order and finish in
  any order.  A repair with a failed write is sent again as a whole.
\<close>

inductive val_step :: "string \<Rightarrow> Database \<Rightarrow> validation \<Rightarrow> validation \<Rightarrow> bool"
  for coin :: string and d :: Database where
  valid: "vd_results s = r # rs \<Longrightarrow> checkResult r = None \<Longrightarrow>
    blockValidated coin d (vd_v s) (vd_conn s) = (Inr v', w') \<Longrightarrow>
    val_step coin d s (s\<lparr>vd_results := rs, vd_v := v', vd_conn := w'\<rparr>)"
| invalid: "vd_results s = r # rs \<Longrightarrow> checkResult r = Some b \<Longrightarrow>
    val_step coin d s (s\<lparr>vd_results := rs, vd_repair := b # vd_repair s\<rparr>)"
| start: "vd_repair s = xs @ b # ys \<Longrightarrow> InsertBlock d b True (vd_conn s) = (Inr i, w') \<Longrightarrow>
    val_step coin d s (s\<lparr>vd_repair := xs @ ys, vd_conn := w',
      vd_jobs := \<lparr>j_block = b, j_pending = tx_results i 0 (b_Txs b), j_failed = False\<rparr> # vd_jobs s\<rparr>)"
| requeue: "vd_repair s = xs @ b # ys \<Longrightarrow> InsertBlock d b True (vd_conn s) = (Inl (Err e), w') \<Longrightarrow>
    val_step coin d s (s\<lparr>vd_conn := w'\<rparr>)"
| written: "vd_jobs s = xs @ j # ys \<Longrightarrow> j_pending j = us @ r # vs \<Longrightarrow>
    int (length us) < v_dbThreads (vd_v s) \<Longrightarrow> repairTx d r (vd_conn s) = (Inr (), w') \<Longrightarrow>
    val_step coin d s (s\<lparr>vd_conn := w', vd_jobs := xs @ j\<lparr>j_pending := us @ vs\<rparr> # ys\<rparr>)"
| failed: "vd_jobs s = xs @ j # ys \<Longrightarrow> j_pending j = us @ r # vs \<Longrightarrow>
    int (length us) < v_dbThreads (vd_v s) \<Longrightarrow> repairTx d r (vd_conn s) = (Inl (Err e), w') \<Longrightarrow>
    val_step coin d s (s\<lparr>vd_conn := w', vd_jobs := xs @ j\<lparr>j_pending := us @ vs, j_failed := True\<rparr> # ys\<rparr>)"
| again: "vd_jobs s = xs @ j # ys \<Longrightarrow> j_pending j = [] \<Longrightarrow> j_failed j \<Longrightarrow>
    val_step coin d s (s\<lparr>vd_jobs := xs @ ys, vd_repair := j_block j # vd_repair s\<rparr>)"
| repaired: "vd_jobs s = xs @ j # ys \<Longrightarrow> j_pending j = [] \<Longrightarrow> \<not> j_failed j \<Longrightarrow>
    blockValidated coin d (vd_v s) (vd_conn s) = (Inr v', w') \<Longrightarrow>
    val_step coin d s (s\<lparr>vd_jobs := xs @ ys, vd_v := v', vd_conn := w'\<rparr>)"

end
