(* ===== verification/BlockValidator_Repair.thy ===== *)
theory BlockValidator_Repair
  imports BlockValidator
begin

text \<open>
  What a validation guarantees: results are checked in order of height, the process ends only when
  every block has been found valid or has been repaired, and which of the recorded progress is to be
  trusted after a crash.
\<close>

section \<open>Order\<close>

definition keyed :: "results \<Rightarrow> bool" where
  "keyed m \<longleftrightarrow> distinct (map fst m) \<and> (\<forall>(k, r) \<in> set m. k = r_height r)"

lemma keyed_heights: "keyed m \<Longrightarrow> map fst m = map (r_height \<circ> snd) m"
  by (auto simp: keyed_def)

lemma keyed_delete:
  assumes "keyed m" "map_of m k = Some r"
  shows "keyed (AList.delete k m)" "mset (map snd m) = add_mset r (mset (map snd (AList.delete k m)))"
    "r_height r = k"
proof -
  show "keyed (AList.delete k m)"
    using assms(1) by (auto simp: keyed_def AList.delete_eq distinct_map_filter)
  have mem: "(k, r) \<in> set m" using assms(2) by (rule map_of_SomeD)
  then show "r_height r = k" using assms(1) by (auto simp: keyed_def)
  obtain xs ys where m: "m = xs @ (k, r) # ys" using mem by (auto simp: in_set_conv_decomp)
  have "k \<notin> fst ` set xs" "k \<notin> fst ` set ys" using assms(1) unfolding keyed_def m by auto
  then have "filter (\<lambda>p. k \<noteq> fst p) xs = xs" "filter (\<lambda>p. k \<noteq> fst p) ys = ys"
    by (metis (mono_tags, lifting) filter_True image_eqI)+
  then have "AList.delete k m = xs @ ys" unfolding m AList.delete_eq by (simp add: case_prod_unfold)
  then show "mset (map snd m) = add_mset r (mset (map snd (AList.delete k m)))" unfolding m by simp
qed

lemma send_found_law:
  assumes "send_found n m = (sent, n', m')" "keyed m"
    "\<forall>r \<in> snd ` set m. n \<le> r_height r \<and> r_height r < 2 ^ 63 - 1" "- (2 ^ 63) \<le> n"
  shows "keyed m' \<and> mset sent + mset (map snd m') = mset (map snd m) \<and>
    map r_height sent = [n..n + int (length sent) - 1] \<and> n' = n + int (length sent) \<and>
    (\<forall>r \<in> snd ` set m'. n' < r_height r)"
  using assms
proof (induction n m arbitrary: sent rule: send_found.induct)
  case (1 n m)
  show ?case
  proof (cases "map_of m n")
    case None
    then have e: "sent = []" "n' = n" "m' = m" using "1.prems"(1) by (simp_all add: send_found.simps)
    have "n < r_height r" if "(k, r) \<in> set m" for k r
    proof -
      have "k = r_height r" using "1.prems"(2) that by (auto simp: keyed_def)
      moreover have "k \<noteq> n" using None that by (metis image_eqI fst_conv map_of_eq_None_iff)
      moreover have "n \<le> r_height r" using "1.prems"(3) that by force
      ultimately show ?thesis by simp
    qed
    then show ?thesis using "1.prems"(2) e by auto
  next
    case (Some r)
    let ?m = "AList.delete n m"
    note del = keyed_delete [OF "1.prems"(2) Some]
    have "r \<in> snd ` set m" using map_of_SomeD [OF Some] by force
    then have i: "i64 (n + 1) = n + 1"
      using "1.prems"(3,4) del(3) by (intro i64_id) (auto simp: in_i64_def)
    obtain s1 where s1: "send_found (n + 1) ?m = (s1, n', m')" "sent = r # s1"
      using "1.prems"(1) Some i by (auto simp: send_found.simps [of n m] split: prod.splits)
    have gt: "\<forall>r \<in> snd ` set ?m. n + 1 \<le> r_height r \<and> r_height r < 2 ^ 63 - 1"
    proof
      fix x assume "x \<in> snd ` set ?m"
      then obtain k where k: "(k, x) \<in> set m" "k \<noteq> n" by (auto simp: AList.delete_eq)
      then have "r_height x \<noteq> n" using "1.prems"(2) by (auto simp: keyed_def)
      moreover have "n \<le> r_height x \<and> r_height x < 2 ^ 63 - 1" using "1.prems"(3) k(1) by force
      ultimately show "n + 1 \<le> r_height x \<and> r_height x < 2 ^ 63 - 1" by simp
    qed
    have lo: "- (2 ^ 63) \<le> n + 1" using "1.prems"(4) by simp
    note ih = "1.IH" [OF Some, unfolded i, OF s1(1) del(1) gt lo]
    then show ?thesis using s1(2) del(2,3) by (auto simp: upto_rec1 [of n])
  qed
qed

lemma keyed_update:
  assumes "keyed m" "r_height r \<notin> fst ` set m"
  shows "keyed (AList.update (r_height r) r m)" "AList.update (r_height r) r m = m @ [(r_height r, r)]"
proof -
  show e: "AList.update (r_height r) r m = m @ [(r_height r, r)]"
    using assms(2) by (induction m) auto
  show "keyed (AList.update (r_height r) r m)"
    unfolding e using assms by (auto simp: keyed_def)
qed

lemma keyed_updates:
  assumes "keyed m" "distinct (map r_height rs)" "r_height ` set rs \<inter> fst ` set m = {}"
  shows "keyed (fold (\<lambda>r. AList.update (r_height r) r) rs m) \<and>
    fold (\<lambda>r. AList.update (r_height r) r) rs m = m @ map (\<lambda>r. (r_height r, r)) rs"
  using assms
proof (induction rs arbitrary: m)
  case (Cons r rs)
  have n: "r_height r \<notin> fst ` set m" using Cons.prems(3) by auto
  note u = keyed_update [OF Cons.prems(1) n]
  have "r_height ` set rs \<inter> fst ` set (AList.update (r_height r) r m) = {}"
    unfolding u(2) using Cons.prems(2,3) by auto
  then show ?case using Cons.IH [OF u(1)] Cons.prems(2) unfolding u(2) by (auto simp: u(2))
qed simp

interpretation result_order: reorder_buffer r_height take_results fst "\<lambda>s. mset (map snd (snd s))"
  "\<lambda>s. - (2 ^ 63) \<le> fst s \<and> keyed (snd s)" "2 ^ 63 - 1"
proof (unfold_locales, goal_cases)
  case (1 s rs out s')
  note new = 1(3) and old = 1(4)
  let ?m = "fold (\<lambda>r. AList.update (r_height r) r) rs (snd s)"
  have k: "keyed (snd s)" using 1(1) by simp
  have "fst ` set (snd s) = r_height ` snd ` set (snd s)"
    using keyed_heights [OF k, THEN arg_cong [of _ _ set]] by (simp add: image_comp)
  moreover have "r_height r \<notin> r_height ` snd ` set (snd s)" if "r \<in> set rs" for r
    using 1(3) [OF that] by simp
  ultimately have "r_height ` set rs \<inter> fst ` set (snd s) = {}" by blast
  then have m: "keyed ?m" "?m = snd s @ map (\<lambda>r. (r_height r, r)) rs"
    using keyed_updates [OF k 1(2)] by blast+
  have r: "\<forall>r \<in> snd ` set ?m. fst s \<le> r_height r \<and> r_height r < 2 ^ 63 - 1"
  proof
    fix r assume "r \<in> snd ` set ?m"
    then consider "r \<in> set rs" | "r \<in># mset (map snd (snd s))" unfolding m(2) by force
    then show "fst s \<le> r_height r \<and> r_height r < 2 ^ 63 - 1"
    proof cases
      case 1
      then show ?thesis using new by blast
    next
      case 2
      then show ?thesis using old [of r] by simp
    qed
  qed
  have p: "send_found (fst s) ?m = (out, fst s', snd s')" using 1(5) by (simp add: take_results_def)
  note l = send_found_law [OF p m(1) r]
  have "mset (map snd ?m) = mset (map snd (snd s)) + mset rs" unfolding m(2) by (simp add: comp_def)
  moreover have "snd ` set (snd s') \<subseteq> snd ` set ?m"
    using l 1(1) by (metis (no_types, lifting) mset_subset_eq_add_right list.set_map set_mset_mono set_mset_mset)
  then have "\<forall>r \<in> snd ` set (snd s'). r_height r < 2 ^ 63 - 1" using r by blast
  ultimately show ?case using l 1(1) by auto
qed

lemma orderResults_feed: "orderResults s rs = result_order.feed s (map (\<lambda>r. [r]) rs)"
  by (induction rs arbitrary: s) (simp_all split: prod.splits)

text \<open>
  C27: the results of the concurrent readers, one per height from the start block on, are handed to
  the check in order of height, each exactly once, whatever order they arrive in.
\<close>

theorem orderResults_in_order:
  assumes "distinct (map r_height rs)" "r_height ` set rs = {a..<b}" "a \<le> b" "- (2 ^ 63) \<le> a" "b < 2 ^ 63"
  shows "\<exists>out s. orderResults (a, []) rs = (out, s) \<and> map r_height out = [a..b - 1] \<and> mset out = mset rs"
proof -
  obtain out s where run: "orderResults (a, []) rs = (out, s)" by (metis surj_pair)
  have c: "concat (map (\<lambda>r. [r]) rs) = rs" by (induction rs) simp_all
  show ?thesis
    using result_order.in_order [OF run [unfolded orderResults_feed], unfolded c, of b] assms run
    by (auto simp: keyed_def)
qed

section \<open>What the writes keep\<close>

text \<open>Everything but the places of the transactions in \<open>X\<close>.\<close>

definition keeps :: "string set \<Rightarrow> db \<Rightarrow> db \<Rightarrow> bool" where
  "keeps X s s' \<longleftrightarrow> wf_db s' \<and> positive s' \<and> idents s \<subseteq> idents s' \<and>
     (\<forall>x p. (x, p) \<in> places s \<longrightarrow> x \<notin> X \<longrightarrow> (x, p) \<in> places s')"

lemma keepsD:
  assumes "keeps X s s'"
  shows "wf_db s'" "positive s'" "y \<in> idents s \<Longrightarrow> y \<in> idents s'"
    "(x, p) \<in> places s \<Longrightarrow> x \<notin> X \<Longrightarrow> (x, p) \<in> places s'"
  using assms by (auto simp: keeps_def)

lemma keeps_refl: "wf_db s \<Longrightarrow> positive s \<Longrightarrow> keeps X s s"
  by (simp add: keeps_def)

lemma keeps_InsertBlock:
  assumes "InsertBlock d b rec w = (r, w')" "wf_db (c_db w)" "positive (c_db w)"
  shows "keeps {} (c_db w) (c_db w')" "r = Inr i \<Longrightarrow> (i, b_Hash b) \<in> idents (c_db w')"
  using InsertBlock_extends [OF assms] by (auto simp: keeps_def extends_def places_def)

lemma keeps_transaction_insert:
  assumes "wf_db s" "positive s" "bid \<noteq> -1" "in_i32 idx"
  shows "keeps {td_txid obj} s (snd (transaction_insert bid obj raw idx s))"
proof -
  obtain r s' where run: "transaction_insert bid obj raw idx s = (r, s')" by (metis surj_pair)
  show ?thesis
  proof (cases r)
    case (Inl e)
    then show ?thesis
      using transaction_insert_failed [OF run [unfolded Inl]] run assms(1,2) by (simp add: keeps_refl)
  next
    case (Inr u)
    then have run': "transaction_insert bid obj raw idx s = (Inr (), s')" using run by simp
    note p = transaction_insert_places [OF run' assms(1,3)]
    have "positive s'" "idents s' = idents s" using p(3,4) assms(2) by (simp_all add: positive_def idents_def)
    then show ?thesis
      using p(2) transaction_insert_wf [OF run' assms(1)] unfolding run by (auto simp: keeps_def)
  qed
qed

lemma keeps_repairTx:
  assumes "repairTx d r w = (q, w')" "wf_db (c_db w)" "positive (c_db w)" "r_blockId r \<noteq> -1" "in_i32 (r_index r)"
  shows "keeps {r_txid r} (c_db w) (c_db w')"
    "q = Inr () \<Longrightarrow> (r_txid r, Some (r_blockId r)) \<in> places (c_db w')"
proof -
  let ?t = "if tx_Hash (r_tx r) = [] then (r_tx r)\<lparr>tx_Hash := tx_TxID (r_tx r)\<rparr> else r_tx r"
  have id: "tx_TxID ?t = r_txid r" by simp
  have run: "InsertTx d ?t (r_index r) (r_blockId r) w = (q, w')" using assms(1) by (simp add: repairTx_def Let_def)
  show "keeps {r_txid r} (c_db w) (c_db w')"
  proof (cases "txObj ?t")
    case (Inl e)
    then have "w' = w" using run unfolding InsertTx_def by (simp add: iobind_def iolift_def)
    then show ?thesis using assms(2,3) by (simp add: keeps_refl)
  next
    case (Inr obj)
    have "c_db w' \<in> {c_db w, snd (transaction_insert (r_blockId r) obj (tx_Hex ?t) (r_index r) (c_db w))}"
      using insert_tx.exactly_once [OF _ run [unfolded InsertTx_retries [OF Inr]]] assms(2,5) by blast
    then show ?thesis
      using keeps_transaction_insert [OF assms(2-5), of obj "tx_Hex ?t"] keeps_refl [OF assms(2,3)]
      unfolding txObj_txid [OF Inr] id by auto
  qed
  assume "q = Inr ()"
  then have "writeTx (db_impl d) r ((), w) = (Inr (), ((), w'))"
    using run by (simp add: writeTx_def Let_def iofatal_Inr db_impl_def on_snd_def)
  then show "(r_txid r, Some (r_blockId r)) \<in> places (c_db w')"
    using writeTx_places(1) [of d r "((), w)"] assms(2,4,5) by simp
qed

lemma wf_metadata [simp]: "wf_db (s\<lparr>metadata := m\<rparr>) = wf_db s"
  by (simp add: wf_defs)

lemma blockValidated_law:
  assumes "blockValidated coin d v w = (Inr v', w')" "wf_db (c_db w)" "positive (c_db w)"
    "0 \<le> blocksValidated v" "blocksValidated v < totalBlocks v" "totalBlocks v < 2 ^ 63" "\<not> v_done v"
  shows "v' = v\<lparr>blocksValidated := blocksValidated v + 1, v_done := (blocksValidated v + 1 = totalBlocks v)\<rparr>"
    "keeps {} (c_db w) (c_db w')"
proof -
  have i: "i64 (blocksValidated v + 1) = blocksValidated v + 1"
    using assms(4-6) by (intro i64_id) (simp add: in_i64_def)
  let ?set = "if i64 (blocksValidated v + revalidateOffset (ToLower coin)) \<le> totalBlocks v then
         iofatal ''failed to update validatedBlock''
           (Set_key d ''validatedBlock'' (Itoa (i64 (v_startBlock v + blocksValidated v))))
       else ioret ()"
  obtain w1 where w1: "?set w = (Inr (), w1)"
    "(let v' = v\<lparr>blocksValidated := i64 (blocksValidated v + 1)\<rparr> in
      if blocksValidated v' \<noteq> totalBlocks v' then ioret v'
      else if v_done v' then iofail (Panic ''close of closed channel'')
      else ioret (v'\<lparr>v_done := True\<rparr>)) w1 = (Inr v', w')"
    using assms(1) unfolding blockValidated_def by (auto elim!: iobind_eq_InrE)
  show "v' = v\<lparr>blocksValidated := blocksValidated v + 1, v_done := (blocksValidated v + 1 = totalBlocks v)\<rparr>"
    using w1(2) assms(7) unfolding i by (auto simp: Let_def split: if_splits)
  have w': "w' = w1" using w1(2) by (auto simp: Let_def split: if_splits)
  have "txs (c_db w1) = txs (c_db w) \<and> blocks (c_db w1) = blocks (c_db w) \<and> block_seq (c_db w1) = block_seq (c_db w) \<and>
      wf_db (c_db w1)"
    using w1(1) assms(2)
    by (auto simp: Set_key_def Exec_def run_def split: if_splits outcome.splits prod.splits)
  then show "keeps {} (c_db w) (c_db w')"
    using assms(3) unfolding w' by (simp add: keeps_def idents_def places_def positive_def)
qed

section \<open>The invariant\<close>

definition stored :: "db \<Rightarrow> Block \<Rightarrow> bool" where
  "stored s b \<longleftrightarrow> (\<exists>i. (i, b_Hash b) \<in> idents s \<and> (\<forall>t \<in> set (b_Txs b). (tx_TxID t, Some i) \<in> places s))"

definition job_ok :: "db \<Rightarrow> job \<Rightarrow> bool" where
  "job_ok s j \<longleftrightarrow> (\<exists>i. i \<noteq> -1 \<and> (i, b_Hash (j_block j)) \<in> idents s \<and>
     (\<forall>t \<in> set (b_Txs (j_block j)). j_failed j \<or> t \<in> r_tx ` set (j_pending j) \<or> (tx_TxID t, Some i) \<in> places s) \<and>
     (\<forall>r \<in> set (j_pending j). r_blockId r = i \<and> in_i32 (r_index r) \<and> r_tx r \<in> set (b_Txs (j_block j))))"

abbreviation txids :: "Block \<Rightarrow> string set" where
  "txids b \<equiv> tx_TxID ` set (b_Txs b)"

lemma keeps_stored: "stored s b \<Longrightarrow> keeps X s s' \<Longrightarrow> txids b \<inter> X = {} \<Longrightarrow> stored s' b"
  unfolding stored_def keeps_def by blast

lemma keeps_job_ok: "job_ok s j \<Longrightarrow> keeps X s s' \<Longrightarrow> txids (j_block j) \<inter> X = {} \<Longrightarrow> job_ok s' j"
  unfolding job_ok_def keeps_def by blast

lemma job_ok_start:
  assumes "(i, b_Hash b) \<in> idents s" "positive s" "length (b_Txs b) < 2 ^ 31"
  shows "job_ok s \<lparr>j_block = b, j_pending = tx_results i 0 (b_Txs b), j_failed = False\<rparr>"
proof -
  have "i \<noteq> -1" using assms(1,2) by (auto simp: positive_def idents_def)
  moreover have "t \<in> r_tx ` set (tx_results i 0 (b_Txs b))" if "t \<in> set (b_Txs b)" for t
    using tx_results_all [OF that, of i 0] by blast
  moreover have "r_blockId r = i \<and> in_i32 (r_index r) \<and> r_tx r \<in> set (b_Txs b)"
    if "r \<in> set (tx_results i 0 (b_Txs b))" for r
    using tx_results_mem [OF that] assms(3) by (auto simp: in_i32_def)
  ultimately show ?thesis using assms(1) unfolding job_ok_def by auto
qed

lemma job_ok_write:
  assumes "job_ok s j" "j_pending j = us @ r # vs" "keeps {r_txid r} s s'"
    "distinct (map tx_TxID (b_Txs (j_block j)))"
    "fl \<or> fl = j_failed j \<and> (r_txid r, Some (r_blockId r)) \<in> places s'"
  shows "job_ok s' (j\<lparr>j_pending := us @ vs, j_failed := fl\<rparr>)"
proof -
  let ?b = "j_block j"
  obtain i where i: "i \<noteq> -1" "(i, b_Hash ?b) \<in> idents s"
    "\<forall>t \<in> set (b_Txs ?b). j_failed j \<or> t \<in> r_tx ` set (j_pending j) \<or> (tx_TxID t, Some i) \<in> places s"
    "\<forall>r \<in> set (j_pending j). r_blockId r = i \<and> in_i32 (r_index r) \<and> r_tx r \<in> set (b_Txs ?b)"
    using assms(1) unfolding job_ok_def by blast
  have r: "r_tx r \<in> set (b_Txs ?b)" "r_blockId r = i" using i(4) assms(2) by auto
  have "fl \<or> t \<in> r_tx ` set (us @ vs) \<or> (tx_TxID t, Some i) \<in> places s'" if t: "t \<in> set (b_Txs ?b)" for t
  proof (cases "tx_TxID t = r_txid r")
    case True
    then show ?thesis using assms(5) r(2) by auto
  next
    case False
    then have "t \<noteq> r_tx r" by blast
    then have "t \<in> r_tx ` set (j_pending j) \<Longrightarrow> t \<in> r_tx ` set (us @ vs)" using assms(2) by auto
    then show ?thesis using i(3) t assms(5) keepsD(4) [OF assms(3)] False by blast
  qed
  then show ?thesis
    using i(1,4) keepsD(3) [OF assms(3) i(2)] assms(2) unfolding job_ok_def by auto
qed

definition repairs :: "blockResult list \<Rightarrow> Block list" where
  "repairs rs = List.map_filter checkResult rs"

lemma repairs_simps [simp]:
  "repairs [] = []"
  "repairs (r # rs) = (case checkResult r of None \<Rightarrow> repairs rs | Some b \<Rightarrow> b # repairs rs)"
  by (simp_all add: repairs_def map_filter_simps split: option.split)

definition val_inv :: "Block list \<Rightarrow> Block list \<Rightarrow> validation \<Rightarrow> bool" where
  "val_inv bs F s \<longleftrightarrow> wf_db (c_db (vd_conn s)) \<and> positive (c_db (vd_conn s)) \<and>
     0 \<le> blocksValidated (vd_v s) \<and> totalBlocks (vd_v s) < 2 ^ 63 \<and>
     blocksValidated (vd_v s) + int (length (vd_results s) + length (vd_repair s) + length (vd_jobs s)) =
       totalBlocks (vd_v s) \<and>
     (v_done (vd_v s) \<longleftrightarrow> blocksValidated (vd_v s) = totalBlocks (vd_v s)) \<and>
     mset (vd_repair s) + mset (map j_block (vd_jobs s)) + mset F + mset (repairs (vd_results s)) = mset bs \<and>
     (\<forall>b \<in> set F. stored (c_db (vd_conn s)) b) \<and> (\<forall>j \<in> set (vd_jobs s). job_ok (c_db (vd_conn s)) j)"

text \<open>A change of the database that leaves alone what is stored and under way.\<close>

lemma val_inv_keeps:
  assumes "val_inv bs F s" "keeps {} (c_db (vd_conn s)) (c_db w')"
  shows "val_inv bs F (s\<lparr>vd_conn := w'\<rparr>)"
  using assms keeps_stored [OF _ assms(2)] keeps_job_ok [OF _ assms(2)] keepsD(1,2) [OF assms(2)]
  unfolding val_inv_def by simp

lemma val_inv_count:
  assumes "val_inv bs F s" "blockValidated coin d (vd_v s) (vd_conn s) = (Inr v', w')"
    "vd_results s \<noteq> [] \<or> vd_repair s \<noteq> [] \<or> vd_jobs s \<noteq> []"
  shows "v' = (vd_v s)\<lparr>blocksValidated := blocksValidated (vd_v s) + 1,
      v_done := (blocksValidated (vd_v s) + 1 = totalBlocks (vd_v s))\<rparr>"
    "val_inv bs F (s\<lparr>vd_conn := w'\<rparr>)"
proof -
  have "0 < length (vd_results s) + length (vd_repair s) + length (vd_jobs s)" using assms(3) by auto
  moreover have sum: "blocksValidated (vd_v s) + int (length (vd_results s) + length (vd_repair s) + length (vd_jobs s)) =
      totalBlocks (vd_v s)" "v_done (vd_v s) \<longleftrightarrow> blocksValidated (vd_v s) = totalBlocks (vd_v s)"
    using assms(1) unfolding val_inv_def by blast+
  ultimately have lt: "blocksValidated (vd_v s) < totalBlocks (vd_v s)" "\<not> v_done (vd_v s)" by linarith+
  have pre: "wf_db (c_db (vd_conn s))" "positive (c_db (vd_conn s))" "0 \<le> blocksValidated (vd_v s)"
    "totalBlocks (vd_v s) < 2 ^ 63"
    using assms(1) unfolding val_inv_def by blast+
  note law = blockValidated_law [OF assms(2) pre(1-3) lt(1) pre(4) lt(2)]
  show "v' = (vd_v s)\<lparr>blocksValidated := blocksValidated (vd_v s) + 1,
      v_done := (blocksValidated (vd_v s) + 1 = totalBlocks (vd_v s))\<rparr>" by (rule law(1))
  show "val_inv bs F (s\<lparr>vd_conn := w'\<rparr>)" by (rule val_inv_keeps [OF assms(1) law(2)])
qed

text \<open>One transaction of one repair touches no other block.\<close>

lemma distinct_txids_mset:
  assumes "mset as = mset bs" "distinct (txids_of bs)"
  shows "distinct (txids_of as)"
proof -
  have "mset (txids_of as) = (\<Sum>b \<in># mset as. mset (map tx_TxID (b_Txs b)))" for as
    by (induction as) (simp_all add: txids_of_def)
  then have "mset (txids_of as) = mset (txids_of bs)" using assms(1) by simp
  then show ?thesis using assms(2) mset_eq_imp_distinct_iff by blast
qed

lemma others_apart:
  assumes "distinct (txids_of (b # bs))" "t \<in> set (b_Txs b)" "b' \<in> set bs"
  shows "txids b' \<inter> {tx_TxID t} = {}"
  using assms unfolding txids_of_def by auto

lemma val_inv_write:
  assumes "val_inv bs F s" "vd_jobs s = xs @ j # ys" "j_pending j = us @ r # vs"
    "repairTx d r (vd_conn s) = (q, w')" "distinct (txids_of bs)"
    "fl \<or> fl = j_failed j \<and> q = Inr ()"
  shows "val_inv bs F (s\<lparr>vd_conn := w', vd_jobs := xs @ j\<lparr>j_pending := us @ vs, j_failed := fl\<rparr> # ys\<rparr>)"
proof -
  let ?s = "c_db (vd_conn s)" and ?s' = "c_db w'"
  have inv: "wf_db ?s" "positive ?s" "\<forall>b \<in> set F. stored ?s b" "job_ok ?s j"
    "\<forall>j \<in> set xs \<union> set ys. job_ok ?s j"
    "mset (vd_repair s) + mset (map j_block (xs @ j # ys)) + mset F + mset (repairs (vd_results s)) = mset bs"
    using assms(1,2) unfolding val_inv_def by auto
  have r: "r_blockId r \<noteq> -1" "in_i32 (r_index r)" "r_tx r \<in> set (b_Txs (j_block j))"
    using inv(4) assms(3) unfolding job_ok_def by auto
  note k = keeps_repairTx [OF assms(4) inv(1,2) r(1,2)]
  let ?rest = "map j_block (xs @ ys) @ F @ vd_repair s @ repairs (vd_results s)"
  have "mset (j_block j # ?rest) = mset bs" using inv(6) by (simp add: ac_simps)
  then have d: "distinct (txids_of (j_block j # ?rest))" by (rule distinct_txids_mset [OF _ assms(5)])
  have apart: "txids b \<inter> {r_txid r} = {}" if "b \<in> set ?rest" for b
    by (rule others_apart [OF d r(3) that])
  have dj: "distinct (map tx_TxID (b_Txs (j_block j)))" using d by (simp add: txids_of_def)
  have "job_ok ?s' (j\<lparr>j_pending := us @ vs, j_failed := fl\<rparr>)"
    by (rule job_ok_write [OF inv(4) assms(3) k(1) dj]) (use assms(6) k(2) in blast)
  moreover have "\<forall>j \<in> set xs \<union> set ys. job_ok ?s' j"
    using inv(5) keeps_job_ok [OF _ k(1) apart] by auto
  moreover have "\<forall>b \<in> set F. stored ?s' b" using inv(3) keeps_stored [OF _ k(1) apart] by simp
  ultimately show ?thesis
    using assms(1,2) keepsD(1,2) [OF k(1)] unfolding val_inv_def by auto
qed

lemma job_ok_done: "job_ok s j \<Longrightarrow> j_pending j = [] \<Longrightarrow> \<not> j_failed j \<Longrightarrow> stored s (j_block j)"
  unfolding job_ok_def stored_def by auto

lemma val_step_inv:
  assumes "val_step coin d s s'" "val_inv bs F s" "distinct (txids_of bs)"
    "\<forall>b \<in> set bs. length (b_Txs b) < 2 ^ 31"
  shows "\<exists>F. val_inv bs F s'"
  using assms(1)
proof cases
  case (valid r rs v' w')
  note c = val_inv_count [OF assms(2) valid(4)]
  show ?thesis using c valid(2,3) unfolding valid(1) by (intro exI [of _ F]) (auto simp: val_inv_def)
next
  case (invalid r rs b)
  then show ?thesis using assms(2) by (intro exI [of _ F]) (auto simp: val_inv_def)
next
  case (start xs b ys i w')
  have inv: "wf_db (c_db (vd_conn s))" "positive (c_db (vd_conn s))" using assms(2) unfolding val_inv_def by blast+
  note k = keeps_InsertBlock [OF start(3) inv]
  have "b \<in># mset bs" using assms(2) start(2) unfolding val_inv_def by (metis union_iff in_set_conv_decomp set_mset_mset)
  then have "job_ok (c_db w') \<lparr>j_block = b, j_pending = tx_results i 0 (b_Txs b), j_failed = False\<rparr>"
    using job_ok_start [OF k(2) keepsD(2) [OF k(1)]] assms(4) by simp
  then show ?thesis
    using val_inv_keeps [OF assms(2) k(1)] start(2) unfolding start(1)
    by (intro exI [of _ F]) (auto simp: val_inv_def)
next
  case (requeue xs b ys e w')
  have inv: "wf_db (c_db (vd_conn s))" "positive (c_db (vd_conn s))" using assms(2) unfolding val_inv_def by blast+
  show ?thesis
    using val_inv_keeps [OF assms(2) keeps_InsertBlock(1) [OF requeue(3) inv]] unfolding requeue(1) by blast
next
  case (written xs j ys us r vs w')
  show ?thesis
    using val_inv_write [OF assms(2) written(2,3,5) assms(3), of "j_failed j"] unfolding written(1) by auto
next
  case (failed xs j ys us r vs e w')
  show ?thesis
    using val_inv_write [OF assms(2) failed(2,3,5) assms(3), of True] unfolding failed(1) by auto
next
  case (again xs j ys)
  then show ?thesis using assms(2) by (intro exI [of _ F]) (auto simp: val_inv_def)
next
  case (repaired xs j ys v' w')
  note c = val_inv_count [OF assms(2) repaired(5)]
  have "job_ok (c_db w') j" using c(2) repaired(2) by (auto simp: val_inv_def)
  then have "stored (c_db w') (j_block j)" by (rule job_ok_done [OF _ repaired(3,4)])
  then show ?thesis
    using c repaired(2) unfolding repaired(1) by (intro exI [of _ "j_block j # F"]) (auto simp: val_inv_def)
qed

section \<open>Validation\<close>

definition start_validation :: "blockValidator \<Rightarrow> blockResult list \<Rightarrow> conn \<Rightarrow> validation" where
  "start_validation v rs w = \<lparr>vd_v = v, vd_results = rs, vd_repair = [], vd_jobs = [], vd_conn = w\<rparr>"

lemma checkResult_txs:
  assumes "checkResult r = Some b"
  shows "\<exists>P. b_Txs b = filter P (b_Txs (nodeBlock r))"
proof (cases "b_Hash (nodeBlock r) \<noteq> dbHash r")
  case True
  then show ?thesis using assms by (intro exI [of _ "\<lambda>t. True"]) (simp add: checkResult_def)
qed (use assms in \<open>auto simp: checkResult_def split: if_splits\<close>)

lemma txids_of_Cons [simp]: "txids_of [] = []" "txids_of (b # bs) = map tx_TxID (b_Txs b) @ txids_of bs"
  by (simp_all add: txids_of_def)

lemma repairs_txids:
  "distinct (txids_of (map nodeBlock rs)) \<Longrightarrow>
    distinct (txids_of (repairs rs)) \<and> set (txids_of (repairs rs)) \<subseteq> set (txids_of (map nodeBlock rs))"
proof (induction rs)
  case (Cons r rs)
  have ih: "distinct (txids_of (repairs rs))" "set (txids_of (repairs rs)) \<subseteq> set (txids_of (map nodeBlock rs))"
    using Cons by simp_all
  show ?case
  proof (cases "checkResult r")
    case None
    then show ?thesis using ih by auto
  next
    case (Some b)
    then obtain P where P: "b_Txs b = filter P (b_Txs (nodeBlock r))" using checkResult_txs by blast
    have "distinct (map tx_TxID (b_Txs b))" using Cons.prems unfolding P by (simp add: distinct_map_filter)
    moreover have "set (map tx_TxID (b_Txs b)) \<subseteq> set (map tx_TxID (b_Txs (nodeBlock r)))" unfolding P by auto
    ultimately show ?thesis using Cons.prems ih Some by fastforce
  qed
qed simp

lemma repairs_mem: "b \<in> set (repairs rs) \<longleftrightarrow> (\<exists>r \<in> set rs. checkResult r = Some b)"
  by (induction rs) (auto split: option.splits)

lemma val_run_inv:
  assumes "(val_step coin d)\<^sup>*\<^sup>* (start_validation v rs w) s" "wf_db (c_db w)" "positive (c_db w)"
    "blocksValidated v = 0" "\<not> v_done v" "totalBlocks v = int (length rs)" "rs \<noteq> []" "totalBlocks v < 2 ^ 63"
    "distinct (txids_of (map nodeBlock rs))" "\<forall>r \<in> set rs. length (b_Txs (nodeBlock r)) < 2 ^ 31"
  shows "\<exists>F. val_inv (repairs rs) F s"
  using assms(1)
proof (induction rule: rtranclp_induct)
  case base
  show ?case using assms(2-8) by (intro exI [of _ "[]"]) (simp add: val_inv_def start_validation_def)
next
  case (step s s')
  have "distinct (txids_of (repairs rs))" using repairs_txids [OF assms(9)] by blast
  moreover have "length (b_Txs b) < 2 ^ 31" if b: "b \<in> set (repairs rs)" for b
  proof -
    obtain r where r: "r \<in> set rs" "checkResult r = Some b" using b by (auto simp: repairs_mem)
    obtain P where "b_Txs b = filter P (b_Txs (nodeBlock r))" using checkResult_txs [OF r(2)] by blast
    then have "length (b_Txs b) \<le> length (b_Txs (nodeBlock r))" by simp
    then show ?thesis using assms(10) r(1) by fastforce
  qed
  ultimately show ?case using step.IH val_step_inv [OF step.hyps(2)] by blast
qed

text \<open>What a repair stores of a block of the node.\<close>

lemma repaired:
  assumes "\<And>b. checkResult r = Some b \<Longrightarrow> stored s b"
    "b_Hash (nodeBlock r) \<noteq> dbHash r \<or> length (b_Txs (nodeBlock r)) \<noteq> length (dbTxIds r)"
  shows "\<exists>i. (i, b_Hash (nodeBlock r)) \<in> idents s \<and>
    (\<forall>t \<in> set (b_Txs (nodeBlock r)). b_Hash (nodeBlock r) \<noteq> dbHash r \<or> tx_TxID t \<notin> set (dbTxIds r) \<longrightarrow>
       (tx_TxID t, Some i) \<in> places s)"
proof (cases "b_Hash (nodeBlock r) = dbHash r")
  case True
  then have "stored s ((nodeBlock r)\<lparr>b_Txs := filter (\<lambda>t. tx_TxID t \<notin> set (dbTxIds r)) (b_Txs (nodeBlock r))\<rparr>)"
    using assms by (simp add: checkResult_def)
  then show ?thesis using True by (auto simp: stored_def)
next
  case False
  then have "stored s (nodeBlock r)" using assms(1) by (simp add: checkResult_def)
  then show ?thesis by (auto simp: stored_def)
qed

text \<open>
  C6: the validation ends when, and only when, nothing is left to check or to repair.  By then every
  block that did not match the node has been repaired: a block with its hash is stored, and the
  transactions the node has and the database did not have (all of them, if the hashes differed) are
  stored under that block.  This holds for every interleaving of
  the checks with the repairs and of the writers of a repair, and for every behaviour of the
  connection.  In particular the channel that signals the end is closed once.
\<close>

theorem validation_complete:
  assumes "(val_step coin d)\<^sup>*\<^sup>* (start_validation v rs w) s" "wf_db (c_db w)" "positive (c_db w)"
    "blocksValidated v = 0" "\<not> v_done v" "totalBlocks v = int (length rs)" "rs \<noteq> []" "totalBlocks v < 2 ^ 63"
    "distinct (txids_of (map nodeBlock rs))" "\<forall>r \<in> set rs. length (b_Txs (nodeBlock r)) < 2 ^ 31"
  shows "(v_done (vd_v s) \<longleftrightarrow> vd_results s = [] \<and> vd_repair s = [] \<and> vd_jobs s = []) \<and>
    (v_done (vd_v s) \<longrightarrow> (\<forall>r \<in> set rs.
       b_Hash (nodeBlock r) \<noteq> dbHash r \<or> length (b_Txs (nodeBlock r)) \<noteq> length (dbTxIds r) \<longrightarrow>
       (\<exists>i. (i, b_Hash (nodeBlock r)) \<in> idents (c_db (vd_conn s)) \<and>
          (\<forall>t \<in> set (b_Txs (nodeBlock r)). b_Hash (nodeBlock r) \<noteq> dbHash r \<or> tx_TxID t \<notin> set (dbTxIds r) \<longrightarrow>
             (tx_TxID t, Some i) \<in> places (c_db (vd_conn s))))))"
proof -
  obtain F where inv: "val_inv (repairs rs) F s" using val_run_inv [OF assms] by blast
  have iff: "v_done (vd_v s) \<longleftrightarrow> vd_results s = [] \<and> vd_repair s = [] \<and> vd_jobs s = []"
  proof -
    have "int (length (vd_results s) + length (vd_repair s) + length (vd_jobs s)) = 0 \<longleftrightarrow>
        vd_results s = [] \<and> vd_repair s = [] \<and> vd_jobs s = []" by (simp only: of_nat_eq_0_iff) simp
    moreover have "blocksValidated (vd_v s) + int (length (vd_results s) + length (vd_repair s) + length (vd_jobs s)) =
       totalBlocks (vd_v s)" "v_done (vd_v s) \<longleftrightarrow> blocksValidated (vd_v s) = totalBlocks (vd_v s)"
      using inv unfolding val_inv_def by blast+
    ultimately show ?thesis by linarith
  qed
  have "stored (c_db (vd_conn s)) b" if "v_done (vd_v s)" "r \<in> set rs" "checkResult r = Some b" for r b
  proof -
    have "mset F = mset (repairs rs)" "\<forall>b \<in> set F. stored (c_db (vd_conn s)) b"
      using inv iff that(1) by (auto simp: val_inv_def)
    moreover have "b \<in> set (repairs rs)" using that(2,3) by (auto simp: repairs_mem)
    ultimately show ?thesis using mset_eq_setD by blast
  qed
  then show ?thesis using iff repaired by blast
qed

section \<open>Recorded progress\<close>

lemma revalidateOffset_bounds: "0 \<le> revalidateOffset c \<and> revalidateOffset c \<le> 250"
  by (simp add: revalidateOffset_def)

lemma valid_run:
  assumes "vd_results s = gs" "\<forall>r \<in> set gs. checkResult r = None" "c_plans (vd_conn s) = []" "gs \<noteq> []"
    "0 \<le> blocksValidated (vd_v s)" "totalBlocks (vd_v s) < 2 ^ 63" "in_i64 (v_startBlock (vd_v s) + totalBlocks (vd_v s))"
    "0 \<le> v_startBlock (vd_v s)"
    "blocksValidated (vd_v s) + int (length gs) + revalidateOffset (ToLower coin) \<le> totalBlocks (vd_v s)"
    "blocksValidated (vd_v s) + int (length gs) < totalBlocks (vd_v s)"
  shows "\<exists>s'. (val_step coin d)\<^sup>*\<^sup>* s s' \<and> vd_repair s' = vd_repair s \<and> c_plans (vd_conn s') = [] \<and>
    blocks (c_db (vd_conn s')) = blocks (c_db (vd_conn s)) \<and>
    metadata (c_db (vd_conn s')) ''validatedBlock'' =
      Some (Itoa (v_startBlock (vd_v s) + blocksValidated (vd_v s) + int (length gs) - 1))"
  using assms
proof (induction gs arbitrary: s)
  case (Cons g gs)
  let ?v = "vd_v s" and ?w = "vd_conn s"
  let ?k = "Itoa (v_startBlock ?v + blocksValidated ?v)"
  let ?w' = "?w\<lparr>c_db := (c_db ?w)\<lparr>metadata := (metadata (c_db ?w))(''validatedBlock'' \<mapsto> ?k)\<rparr>, c_plans := []\<rparr>"
  let ?s = "s\<lparr>vd_results := gs, vd_v := ?v\<lparr>blocksValidated := blocksValidated ?v + 1\<rparr>, vd_conn := ?w'\<rparr>"
  have i: "i64 (blocksValidated ?v + revalidateOffset (ToLower coin)) = blocksValidated ?v + revalidateOffset (ToLower coin)"
    "i64 (v_startBlock ?v + blocksValidated ?v) = v_startBlock ?v + blocksValidated ?v"
    "i64 (blocksValidated ?v + 1) = blocksValidated ?v + 1"
    using Cons.prems revalidateOffset_bounds [of "ToLower coin"] by (intro i64_id; simp add: in_i64_def)+
  have le: "blocksValidated ?v + revalidateOffset (ToLower coin) \<le> totalBlocks ?v" "blocksValidated ?v + 1 \<noteq> totalBlocks ?v"
    using Cons.prems(9,10) by auto
  have "blockValidated coin d ?v ?w = (Inr (?v\<lparr>blocksValidated := blocksValidated ?v + 1\<rparr>), ?w')"
    using le Cons.prems(3)
    by (simp add: blockValidated_def i iobind_def Set_key_def Exec_def run_def next_plan_def Let_def
        iofatal_def iowrapf_def)
  then have step: "val_step coin d s ?s"
    using val_step.valid [OF Cons.prems(1)] Cons.prems(2) by simp
  show ?case
  proof (cases "gs = []")
    case True
    then show ?thesis using step by (intro exI [of _ ?s]) auto
  next
    case False
    obtain s' where s': "(val_step coin d)\<^sup>*\<^sup>* ?s s'" "vd_repair s' = vd_repair ?s" "c_plans (vd_conn s') = []"
      "blocks (c_db (vd_conn s')) = blocks (c_db (vd_conn ?s))"
      "metadata (c_db (vd_conn s')) ''validatedBlock'' =
        Some (Itoa (v_startBlock (vd_v ?s) + blocksValidated (vd_v ?s) + int (length gs) - 1))"
      using Cons.IH [of ?s] Cons.prems False by auto
    show ?thesis
      using converse_rtranclp_into_rtranclp [of "val_step coin d", OF step s'(1)] s'(2-5)
      by (intro exI [of _ s']) (simp add: algebra_simps)
  qed
qed simp

text \<open>
  C40: the recorded progress counts validated blocks and does not say which.  When the first block of
  a run has to be repaired and enough later ones are valid, the run can record a height above the
  block that is still to be repaired; a validation started from that record does not look at it
  again.
\<close>

theorem progress_skips_repair:
  assumes "checkResult bad = Some b" "\<forall>r \<in> set good. checkResult r = None" "2 \<le> length good" "c_plans w = []"
    "last_height (blocks (c_db w)) = Some l" "0 \<le> v_startBlock v" "l < 2 ^ 31"
    "blocksValidated v = 0" "totalBlocks v = l - v_startBlock v + 1"
    "int (length good) + revalidateOffset (ToLower coin) \<le> totalBlocks v" "int (length good) < totalBlocks v"
  shows "\<exists>s v' hs w'. (val_step coin d)\<^sup>*\<^sup>* (start_validation v (bad # good) w) s \<and> b \<in> set (vd_repair s) \<and>
    generateBlockHeights d v0 (vd_conn s) = (Inr (v', hs), w') \<and> v_startBlock v \<notin> set hs"
proof -
  let ?s = "\<lparr>vd_v = v, vd_results = good, vd_repair = [b], vd_jobs = [], vd_conn = w\<rparr>"
  have first: "val_step coin d (start_validation v (bad # good) w) ?s"
    using val_step.invalid [of "start_validation v (bad # good) w" bad good b] assms(1)
    by (simp add: start_validation_def)
  have "vd_results ?s = good" "in_i64 (v_startBlock (vd_v ?s) + totalBlocks (vd_v ?s))" "totalBlocks (vd_v ?s) < 2 ^ 63"
    "good \<noteq> []"
    using assms by (auto simp: in_i64_def)
  then obtain s where s: "(val_step coin d)\<^sup>*\<^sup>* ?s s" "vd_repair s = [b]" "c_plans (vd_conn s) = []"
    "blocks (c_db (vd_conn s)) = blocks (c_db w)"
    "metadata (c_db (vd_conn s)) ''validatedBlock'' = Some (Itoa (v_startBlock v + int (length good) - 1))"
    using valid_run [of ?s good coin d] assms by auto
  let ?a = "v_startBlock v + int (length good) - 1"
  have a: "Atoi (Itoa ?a) = (?a, None)" using assms by (intro Atoi_Itoa) (simp add: in_i64_def)
  have i: "i64 (i64 (l - ?a) + 1) = l - ?a + 1" using assms by (simp add: i64_id in_i64_def)
  have get: "Get_key d ''validatedBlock'' (vd_conn s) = (Inr (Itoa ?a), vd_conn s)"
    using s(3,5) by (simp add: Get_key_def QueryRow_def run_def next_plan_def iowrapf_def)
  obtain r where r: "LastBlock d (vd_conn s) = (Inr r, vd_conn s)" "map_option last_Height r = Some l"
    using LastBlock_undisturbed [OF s(3), of d] unfolding s(4) assms(5) by blast
  then obtain lb where lb: "r = Some lb" "last_Height lb = l" by auto
  have "generateBlockHeights d v0 (vd_conn s) =
      (Inr (v0\<lparr>v_startBlock := ?a, totalBlocks := l - ?a + 1\<rparr>, [?a..l]), vd_conn s)"
    using get r(1) lb a i assms(9,11)
    by (simp add: generateBlockHeights_def iobind_def iofatal_Inr iolift_def deref_def Let_def)
  moreover have "v_startBlock v \<notin> set [?a..l]" using assms(3) by simp
  ultimately show ?thesis
    using converse_rtranclp_into_rtranclp [of "val_step coin d", OF first s(1)] s(2) by auto
qed

section \<open>Concrete runs\<close>

definition sample_result :: "int \<Rightarrow> bool \<Rightarrow> blockResult" where
  "sample_result h good = \<lparr>dbHash = (if good then Itoa h else ''?''), dbTxIds = [], nodeBlock = sample_block h\<rparr>"

lemma sample_result_sel [simp]: "r_height (sample_result h good) = h"
  by (simp add: sample_result_def)

lemma Itoa_not_mark: "Itoa 0 \<noteq> ''?''"
  by (simp add: Itoa_def digits_rec digit_chr_eval)

lemma sample_result_check [simp]:
  "checkResult (sample_result h True) = None" "checkResult (sample_result 0 False) = Some (sample_block 0)"
  using Itoa_not_mark by (auto simp: sample_result_def checkResult_def sample_block_def hdr_def)

theorem orderResults_in_order_witness:
  "\<exists>out s. orderResults (5, []) [sample_result 6 True, sample_result 7 True, sample_result 5 True] = (out, s) \<and>
     map r_height out = [5, 6, 7]"
proof -
  have "r_height ` set [sample_result 6 True, sample_result 7 True, sample_result 5 True] = {5..<8}" by auto
  moreover have "[5..8 - 1] = [5, 6, 7 :: int]" by (simp add: upto_rec1)
  ultimately show ?thesis
    using orderResults_in_order [of "[sample_result 6 True, sample_result 7 True, sample_result 5 True]" 5 8] by auto
qed

definition sample_validator :: "int \<Rightarrow> int \<Rightarrow> blockValidator" where
  "sample_validator a n = \<lparr>blocksValidated = 0, v_dbThreads = 1, v_rpcThreads = 1, v_startBlock = a,
     totalBlocks = n, v_done = False\<rparr>"

theorem validation_complete_witness:
  "\<exists>s. (val_step ''btc'' sample_handle)\<^sup>*\<^sup>*
      (start_validation (sample_validator 0 1) [sample_result 0 True] (sample_conn [])) s \<and>
     v_done (vd_v s) \<and> vd_repair s = []"
proof -
  let ?s = "start_validation (sample_validator 0 1) [sample_result 0 True] (sample_conn [])"
  let ?v = "(sample_validator 0 1)\<lparr>blocksValidated := 1, v_done := True\<rparr>"
  have "blockValidated ''btc'' sample_handle (vd_v ?s) (vd_conn ?s) = (Inr ?v, sample_conn [])"
    by (simp add: blockValidated_def start_validation_def sample_validator_def revalidateOffset_def ToLower_def
        lower_char_def i64_id in_i64_def Let_def)
  then have run: "(val_step ''btc'' sample_handle)\<^sup>*\<^sup>* ?s (?s\<lparr>vd_results := [], vd_v := ?v, vd_conn := sample_conn []\<rparr>)"
    using val_step.valid [of ?s "sample_result 0 True" "[]" "''btc''" sample_handle]
    by (simp add: start_validation_def r_into_rtranclp)
  have "wf_db (c_db (sample_conn []))" "positive (c_db (sample_conn []))"
    "distinct (txids_of (map nodeBlock [sample_result 0 True]))"
    using sample_db_wf by (simp_all add: sample_conn_def positive_def sample_db_def new_block_row_def
        sample_result_def sample_block_def)
  from validation_complete [OF run this(1,2) _ _ _ _ _ this(3)]
  show ?thesis
    using run by (intro exI [of _ "?s\<lparr>vd_results := [], vd_v := ?v, vd_conn := sample_conn []\<rparr>"])
      (simp add: sample_validator_def start_validation_def sample_result_def sample_block_def)
qed

definition long_conn :: conn where
  "long_conn = (sample_conn [])\<lparr>c_db := sample_db\<lparr>blocks := [new_block_row 1 (hdr ''t'' 11 ''x'') 0 0]\<rparr>\<rparr>"

theorem progress_skips_repair_witness:
  "\<exists>s v' hs w'. (val_step ''BTC'' sample_handle)\<^sup>*\<^sup>*
      (start_validation (sample_validator 0 12) [sample_result 0 False, sample_result 1 True, sample_result 2 True] long_conn) s \<and>
     sample_block 0 \<in> set (vd_repair s) \<and>
     generateBlockHeights sample_handle (sample_validator 0 0) (vd_conn s) = (Inr (v', hs), w') \<and> 0 \<notin> set hs"
proof -
  have "last_height (blocks (c_db long_conn)) = Some 11" "c_plans long_conn = []"
    by (simp_all add: long_conn_def sample_conn_def last_height_def new_block_row_def hdr_def)
  moreover have "revalidateOffset (ToLower ''BTC'') = 10" by code_simp
  ultimately show ?thesis
    using progress_skips_repair [of "sample_result 0 False" "sample_block 0" "[sample_result 1 True, sample_result 2 True]"
        long_conn 11 "sample_validator 0 12" "''BTC''" sample_handle "sample_validator 0 0"]
    by (simp add: sample_validator_def)
qed

text \<open>
  Only the number of transactions is compared: a block whose stored transactions are others than the
  node's, but as many, counts as valid.  And the transactions sent to a repair are numbered by their
  place among the missing ones, not by their place in the block.
\<close>

lemma checkResult_counts_only:
  "checkResult \<lparr>dbHash = ''h'', dbTxIds = [''other''], nodeBlock = with_txs (hdr ''h'' 1 ''g'') [coin_tx]\<rparr> = None"
  by (simp add: checkResult_def hdr_def)

lemma repair_renumbers:
  assumes "checkResult r = Some b" "b_Hash (nodeBlock r) = dbHash r" "b_Txs (nodeBlock r) = us @ t # vs"
    "tx_TxID t \<notin> set (dbTxIds r)"
  shows "\<exists>x \<in> set (tx_results i 0 (b_Txs b)). r_tx x = t \<and>
    r_index x = int (length (filter (\<lambda>u. tx_TxID u \<notin> set (dbTxIds r)) us))"
proof -
  have app: "tx_results i k (as @ u # bs) = tx_results i k as @ \<lparr>r_tx = u, r_index = k + int (length as), r_blockId = i\<rparr> #
      tx_results i (k + int (length as) + 1) bs" for k as u bs
    by (induction as arbitrary: k) (simp_all add: algebra_simps)
  have "b_Txs b = filter (\<lambda>u. tx_TxID u \<notin> set (dbTxIds r)) us @ t # filter (\<lambda>u. tx_TxID u \<notin> set (dbTxIds r)) vs"
    using assms by (auto simp: checkResult_def split: if_splits)
  then show ?thesis by (simp add: app)
qed

end
