(* ===== verification/TxValidator.thy ===== *)
theory TxValidator
  imports BlockValidator_Repair
begin

text \<open>
  The transaction validator (\<open>cmd/txvalidator/main.go\<close>): pending transactions that no node has in its
  mempool are deleted.  The main result says that nothing else is ever deleted, and that with an
  undisturbed connection all of these are.
\<close>

section \<open>The validator\<close>

definition deleteSize :: nat where
  "deleteSize = 1"

definition mempoolReqs :: nat where
  "mempoolReqs = 15"

record txValidator =
  tv_dbThreads :: int
  mempool :: "string set"

definition newTxValidator :: "Config \<Rightarrow> string \<Rightarrow> (DB_cfg \<Rightarrow> Database result) \<Rightarrow>
    (txValidator \<times> Database) result" where
  "newTxValidator c coin newdb =
    rbind (fatal ''main'' (GetCoin c coin)) (\<lambda>cc.
    rbind (fatal ''main'' (GetDBConfig c ReadWrite cc)) (\<lambda>dbConfig.
    rbind (fatal ''main'' (newdb dbConfig)) (\<lambda>d.
    Inr (\<lparr>tv_dbThreads = db_Threads (DB_BaseDB dbConfig), mempool = {}\<rparr>, d))))"

definition buildMempool :: "txValidator \<Rightarrow> string list \<Rightarrow> txValidator" where
  "buildMempool v mp = v\<lparr>mempool := mempool v \<union> set mp\<rparr>"

text \<open>The requests for the mempool; adding to the map commutes, so their order does not matter.\<close>

definition fetchMempool :: "'n net \<Rightarrow> Blockchain \<Rightarrow> txValidator \<Rightarrow> ('n, txValidator) io" where
  "fetchMempool net bc v =
    iobind (iomapM (\<lambda>_. iofatal ''failed to get mempool'' (GetMempool net bc)) (replicate mempoolReqs ()))
      (\<lambda>mps. ioret (fold (\<lambda>mp v. buildMempool v mp) mps v))"

definition invalidIDs :: "txValidator \<Rightarrow> PendingTx list \<Rightarrow> int list" where
  "invalidIDs v ts = map ptx_ID (filter (\<lambda>t. ptx_TxID t \<notin> mempool v) ts)"

text \<open>The identifiers in batches of \<open>deleteSize\<close>.\<close>

function delete_batches :: "int list \<Rightarrow> int list list" where
  "delete_batches ids =
    (if ids = [] then [] else take deleteSize ids # delete_batches (drop deleteSize ids))"
  by pat_completeness auto

termination delete_batches
  by (relation "measure length") (auto simp: deleteSize_def)

declare delete_batches.simps [simp del]

text \<open>
  The database side of \<open>main\<close>.  The threads take the batches from a channel and finish in any order:
  \<open>sched\<close> is the order in which the deletions take effect.  \<open>date\<close> is the time a week ago.
\<close>

definition delete_and_record :: "Database \<Rightarrow> (int list list \<Rightarrow> int list list) \<Rightarrow> int \<Rightarrow> int list \<Rightarrow> (conn, unit) io" where
  "delete_and_record d sched date ids =
    iobind (iomapM (\<lambda>ids. iologged (DeleteInvalidTxs d ids)) (sched (delete_batches ids))) (\<lambda>_.
    iobind (iologged (GetTxAtBlockTime d date)) (\<lambda>r.
    case r of None \<Rightarrow> ioret ()
    | Some n \<Rightarrow> iobind (iologged (Set_key d ''validatedTransaction'' (Itoa n))) (\<lambda>_. ioret ())))"

definition validate_pending :: "Database \<Rightarrow> (int list list \<Rightarrow> int list list) \<Rightarrow> int \<Rightarrow> txValidator \<Rightarrow> (conn, unit) io" where
  "validate_pending d sched date v =
    iobind (iologged (Get_key d ''validatedTransaction'')) (\<lambda>value.
    case Atoi (case value of None \<Rightarrow> ''0'' | Some s \<Rightarrow> s) of
      (_, Some e) \<Rightarrow> iofail (Exit ''failed to convert id'')
    | (i, None) \<Rightarrow>
        iobind (iologged (GetPendingTxs d (Some i))) (\<lambda>ts.
        delete_and_record d sched date (invalidIDs v (case ts of None \<Rightarrow> [] | Some ts \<Rightarrow> ts))))"

definition txvalidator_main ::
  "'n net \<Rightarrow> Blockchain \<Rightarrow> Database \<Rightarrow> (int list list \<Rightarrow> int list list) \<Rightarrow> int \<Rightarrow> txValidator \<Rightarrow> ('n \<times> conn, unit) io" where
  "txvalidator_main net bc d sched date v =
    iobind (on_fst (fetchMempool net bc v)) (\<lambda>v. on_snd (validate_pending d sched date v))"

section \<open>Deletions\<close>

definition invalid_rows :: "txValidator \<Rightarrow> int \<Rightarrow> tx_row \<Rightarrow> bool" where
  "invalid_rows v n t \<longleftrightarrow> t_block_id t = None \<and> n \<le> t_id t \<and> t_txid t \<notin> mempool v"

text \<open>Only pending transactions with an identifier in \<open>X\<close> are gone, and their inputs and outputs with them.\<close>

definition deletes :: "int set \<Rightarrow> db \<Rightarrow> db \<Rightarrow> bool" where
  "deletes X s s' \<longleftrightarrow> (\<exists>Y \<subseteq> X. txs s' = filter (\<lambda>t. \<not> (t_id t \<in> Y \<and> t_block_id t = None)) (txs s))"

lemma deletes_refl: "txs s' = txs s \<Longrightarrow> deletes X s s'"
  unfolding deletes_def by (intro exI [of _ "{}"]) simp

lemma deletes_trans: "deletes X s s' \<Longrightarrow> deletes X s' s'' \<Longrightarrow> deletes X s s''"
  unfolding deletes_def
proof (elim exE conjE)
  fix Y Z
  assume "Y \<subseteq> X" "txs s' = filter (\<lambda>t. \<not> (t_id t \<in> Y \<and> t_block_id t = None)) (txs s)" "Z \<subseteq> X"
    "txs s'' = filter (\<lambda>t. \<not> (t_id t \<in> Z \<and> t_block_id t = None)) (txs s')"
  then show "\<exists>Y \<subseteq> X. txs s'' = filter (\<lambda>t. \<not> (t_id t \<in> Y \<and> t_block_id t = None)) (txs s)"
    by (intro exI [of _ "Y \<union> Z"]) (auto intro: filter_cong)
qed

lemma iologged_world: "iologged m w = (r, w') \<Longrightarrow> \<exists>q. m w = (q, w')"
  by (auto simp: iologged_def split: prod.splits sum.splits fault.splits)

lemma DeleteInvalidTxs_deletes:
  assumes "DeleteInvalidTxs d ids w = (r, w')"
  shows "c_db w' = c_db w \<or> c_db w' = snd (delete_invalid_txs ids (c_db w))"
  using delete_invalid.exactly_once [OF TrueI assms [unfolded DeleteInvalidTxs_def]] by blast

lemma delete_all:
  assumes "iomapM (\<lambda>ids. iologged (DeleteInvalidTxs d ids)) bs w = (r, w')" "\<Union> (set ` set bs) \<subseteq> X"
  shows "deletes X (c_db w) (c_db w')"
  using assms
proof (induction bs arbitrary: w r)
  case Nil
  then show ?case by (simp add: ioret_def deletes_refl)
next
  case (Cons ids bs)
  obtain q w1 where q: "iologged (DeleteInvalidTxs d ids) w = (q, w1)" by (metis surj_pair)
  obtain q' where "DeleteInvalidTxs d ids w = (q', w1)" using iologged_world [OF q] by blast
  then have "c_db w1 = c_db w \<or> c_db w1 = snd (delete_invalid_txs ids (c_db w))" by (rule DeleteInvalidTxs_deletes)
  then have one: "deletes X (c_db w) (c_db w1)"
  proof
    assume "c_db w1 = snd (delete_invalid_txs ids (c_db w))"
    then show ?thesis
      using Cons.prems(2) unfolding deletes_def
      by (intro exI [of _ "set ids"]) (simp add: delete_invalid_txs_def Let_def)
  qed (simp add: deletes_refl)
  show ?case
  proof (cases q)
    case (Inl e)
    then have "w' = w1" using Cons.prems(1) q by (simp add: iobind_def)
    then show ?thesis using one by simp
  next
    case (Inr x)
    obtain r' w2 where r': "iomapM (\<lambda>ids. iologged (DeleteInvalidTxs d ids)) bs w1 = (r', w2)" by (metis surj_pair)
    then have w: "w' = w2" using Cons.prems(1) q Inr by (auto simp: iobind_def ioret_def split: sum.splits)
    show ?thesis using Cons.IH [OF r' [folded w]] Cons.prems(2) deletes_trans [OF one] by simp
  qed
qed

lemma batches_concat: "concat (delete_batches ids) = ids"
  by (induction ids rule: delete_batches.induct) (subst delete_batches.simps, simp)

lemma QueryRow_db: "QueryRow q w = (r, w') \<Longrightarrow> (\<And>p s. snd (q p s) = s) \<Longrightarrow> c_db w' = c_db w"
  by (auto simp: QueryRow_def run_def split: outcome.splits prod.splits) (metis snd_conv)+

lemma iowrapf_world: "iowrapf m f w = (r, w') \<Longrightarrow> \<exists>q. f w = (q, w') \<and> r = wrapf m q"
  by (auto simp: iowrapf_def split: prod.splits)

lemma Get_key_db: "Get_key d k w = (r, w') \<Longrightarrow> c_db w' = c_db w"
  unfolding Get_key_def by (drule iowrapf_world) (auto elim!: QueryRow_db)

lemma GetTxAtBlockTime_db: "GetTxAtBlockTime d k w = (r, w') \<Longrightarrow> c_db w' = c_db w"
  unfolding GetTxAtBlockTime_def by (drule iowrapf_world) (auto elim!: QueryRow_db)

lemma Set_key_txs: "Set_key d k x w = (r, w') \<Longrightarrow> txs (c_db w') = txs (c_db w)"
  unfolding Set_key_def
  by (drule iowrapf_world) (auto simp: Exec_def run_def split: outcome.splits)

definition pending_of :: "db \<Rightarrow> int \<Rightarrow> PendingTx list" where
  "pending_of s n = map (\<lambda>t. \<lparr>ptx_ID = t_id t, ptx_TxID = t_txid t\<rparr>)
     (filter (\<lambda>t. t_block_id t = None \<and> n \<le> t_id t) (txs s))"

lemma GetPendingTxs_rows:
  assumes "GetPendingTxs d (Some n) w = (r, w')"
  shows "c_db w' = c_db w" "r = Inr ts \<Longrightarrow> set ts \<subseteq> set (pending_of (c_db w) n)"
proof -
  obtain q where q: "Query (\<lambda>s. pending_of s n) (\<lambda>rs. Inr (sort_key ptx_ID rs)) w = (q, w')"
    "r = wrapf ''failed to get pending transactions'' q"
    using iowrapf_world [OF assms [unfolded GetPendingTxs_def]] by (auto simp: pending_of_def)
  show "c_db w' = c_db w" using q(1) by (auto simp: Query_def Let_def split: outcome.splits)
  assume "r = Inr ts"
  then have "q = Inr ts" using q(2) by simp
  then show "set ts \<subseteq> set (pending_of (c_db w) n)"
    using q(1) by (auto simp: Query_def Let_def split: outcome.splits dest: in_set_takeD)
qed

lemma invalidIDs_pending: "invalidIDs v (pending_of s n) = map t_id (filter (invalid_rows v n) (txs s))"
  by (simp add: invalidIDs_def pending_of_def filter_map comp_def invalid_rows_def [abs_def] conj_ac)

lemma invalidIDs_rows:
  assumes "set ts \<subseteq> set (pending_of s n)"
  shows "set (invalidIDs v ts) \<subseteq> t_id ` {t \<in> set (txs s). invalid_rows v n t}"
proof -
  have "set (invalidIDs v ts) \<subseteq> set (invalidIDs v (pending_of s n))" using assms by (auto simp: invalidIDs_def)
  also have "\<dots> \<subseteq> t_id ` {t \<in> set (txs s). invalid_rows v n t}"
    by (auto simp: invalidIDs_pending)
  finally show ?thesis .
qed

lemma iobind_world:
  assumes "iobind m f w = (r, w')"
  shows "\<exists>q w1. m w = (q, w1) \<and> (w' = w1 \<or> (\<exists>x. q = Inr x \<and> f x w1 = (r, w')))"
  using assms by (auto simp: iobind_def split: prod.splits sum.splits)

lemma delete_and_record_deletes:
  assumes "delete_and_record d sched date ids w = (r, w')" "\<And>bs. set (sched bs) = set bs"
  shows "deletes (set ids) (c_db w) (c_db w')"
proof -
  let ?bs = "sched (delete_batches ids)"
  have "\<Union> (set ` set ?bs) \<subseteq> set ids" unfolding assms(2) using batches_concat [of ids] by (metis order_refl set_concat)
  then obtain q w1 where 1: "deletes (set ids) (c_db w) (c_db w1)" "w' = w1 \<or>
      (iobind (iologged (GetTxAtBlockTime d date)) (\<lambda>r. case r of None \<Rightarrow> ioret ()
        | Some n \<Rightarrow> iobind (iologged (Set_key d ''validatedTransaction'' (Itoa n))) (\<lambda>_. ioret ()))) w1 = (r, w')"
    using iobind_world [OF assms(1) [unfolded delete_and_record_def]] delete_all by metis
  have "txs (c_db w') = txs (c_db w1)"
    using 1(2)
  proof
    assume "iobind (iologged (GetTxAtBlockTime d date)) (\<lambda>r. case r of None \<Rightarrow> ioret ()
        | Some n \<Rightarrow> iobind (iologged (Set_key d ''validatedTransaction'' (Itoa n))) (\<lambda>_. ioret ())) w1 = (r, w')"
    from iobind_world [OF this] obtain q w2 where 2: "iologged (GetTxAtBlockTime d date) w1 = (q, w2)"
      "w' = w2 \<or> (\<exists>x. q = Inr x \<and> (case x of None \<Rightarrow> ioret ()
        | Some n \<Rightarrow> iobind (iologged (Set_key d ''validatedTransaction'' (Itoa n))) (\<lambda>_. ioret ())) w2 = (r, w'))" by blast
    have "c_db w2 = c_db w1" using iologged_world [OF 2(1)] GetTxAtBlockTime_db by blast
    moreover have "txs (c_db w') = txs (c_db w2)"
      using 2(2) by (auto split: option.splits dest!: iobind_world iologged_world simp: ioret_def)
        (rule Set_key_txs, assumption)+
    ultimately show ?thesis by simp
  qed simp
  then show ?thesis using deletes_trans [OF 1(1) deletes_refl] by blast
qed

lemma deletes_mono: "deletes X s s' \<Longrightarrow> X \<subseteq> Y \<Longrightarrow> deletes Y s s'"
  unfolding deletes_def by blast

lemma validate_pending_deletes:
  assumes "validate_pending d sched date v w = (r, w')" "\<And>bs. set (sched bs) = set bs"
  shows "\<exists>n. deletes (t_id ` {t \<in> set (txs (c_db w)). invalid_rows v n t}) (c_db w) (c_db w')"
proof -
  let ?next = "\<lambda>ts. delete_and_record d sched date (invalidIDs v (case ts of None \<Rightarrow> [] | Some ts \<Rightarrow> ts))"
  obtain q w1 where 1: "iologged (Get_key d ''validatedTransaction'') w = (q, w1)" and
    2: "w' = w1 \<or> (\<exists>x. q = Inr x \<and> (case Atoi (case x of None \<Rightarrow> ''0'' | Some s \<Rightarrow> s) of
        (_, Some e) \<Rightarrow> iofail (Exit ''failed to convert id'')
      | (i, None) \<Rightarrow> iobind (iologged (GetPendingTxs d (Some i))) ?next) w1 = (r, w'))"
    using iobind_world [OF assms(1) [unfolded validate_pending_def]] by blast
  have db1: "c_db w1 = c_db w" using iologged_world [OF 1] Get_key_db by blast
  have "w' = w1 \<or> (\<exists>i. iobind (iologged (GetPendingTxs d (Some i))) ?next w1 = (r, w'))"
    using 2
  proof
    assume "\<exists>x. q = Inr x \<and> (case Atoi (case x of None \<Rightarrow> ''0'' | Some s \<Rightarrow> s) of
        (_, Some e) \<Rightarrow> iofail (Exit ''failed to convert id'')
      | (i, None) \<Rightarrow> iobind (iologged (GetPendingTxs d (Some i))) ?next) w1 = (r, w')"
    then obtain a :: "int \<times> num_error option" where "(case a of (_, Some e) \<Rightarrow> iofail (Exit ''failed to convert id'')
      | (i, None) \<Rightarrow> iobind (iologged (GetPendingTxs d (Some i))) ?next) w1 = (r, w')" by blast
    then show ?thesis by (cases a; cases "snd a") (auto simp: iofail_def)
  qed simp
  then show ?thesis
  proof
    assume "w' = w1"
    then show ?thesis using db1 by (simp add: deletes_refl)
  next
    assume "\<exists>i. iobind (iologged (GetPendingTxs d (Some i))) ?next w1 = (r, w')"
    then obtain i where i: "iobind (iologged (GetPendingTxs d (Some i))) ?next w1 = (r, w')" by blast
    obtain q w2 where 3: "iologged (GetPendingTxs d (Some i)) w1 = (q, w2)"
      "w' = w2 \<or> (\<exists>ts. q = Inr ts \<and> ?next ts w2 = (r, w'))"
      using iobind_world [OF i] by blast
    obtain q' where q': "GetPendingTxs d (Some i) w1 = (q', w2)" using iologged_world [OF 3(1)] by blast
    have db2: "c_db w2 = c_db w" using GetPendingTxs_rows(1) [OF q'] db1 by simp
    have rows: "set (case ts of None \<Rightarrow> [] | Some ts \<Rightarrow> ts) \<subseteq> set (pending_of (c_db w) i)" if "q = Inr ts" for ts
      using 3(1) q' GetPendingTxs_rows(2) [OF q'] db1 that
      by (auto simp: iologged_def split: option.splits sum.splits fault.splits)
    show ?thesis
      using 3(2) delete_and_record_deletes [OF _ assms(2)] invalidIDs_rows [OF rows] deletes_mono db2
      by (metis deletes_refl)
  qed
qed

section \<open>An undisturbed run\<close>

lemma Exec_undisturbed:
  assumes "c_plans w = []" "\<And>p. q p (c_db w) = (r, s)"
  shows "Exec q w = (r, w\<lparr>c_db := s\<rparr>)"
  using assms by (simp add: Exec_def run_def undisturbed)

lemma DeleteInvalidTxs_undisturbed:
  assumes "c_plans w = []"
  shows "DeleteInvalidTxs d ids w = (Inr (), w\<lparr>c_db := snd (delete_invalid_txs ids (c_db w))\<rparr>)"
proof -
  have "Exec (\<lambda>p. delete_invalid_txs ids) w = (Inr (), w\<lparr>c_db := snd (delete_invalid_txs ids (c_db w))\<rparr>)"
    by (rule Exec_undisturbed [OF assms]) (simp add: delete_invalid_txs_def Let_def)
  then show ?thesis
    unfolding DeleteInvalidTxs_def Simple_try_upto
    by (cases "nat (i64 (Attempts (d_retry d) - 1))") (simp_all add: iowrapf_def)
qed

lemma delete_all_undisturbed:
  assumes "c_plans w = []"
  shows "\<exists>rs s. iomapM (\<lambda>ids. iologged (DeleteInvalidTxs d ids)) bs w = (Inr rs, w\<lparr>c_db := s\<rparr>) \<and>
    txs s = filter (\<lambda>t. \<not> (t_id t \<in> \<Union> (set ` set bs) \<and> t_block_id t = None)) (txs (c_db w))"
  using assms
proof (induction bs arbitrary: w)
  case Nil
  show ?case by (intro exI [of _ "[]"] exI [of _ "c_db w"]) (simp add: ioret_def)
next
  case (Cons ids bs)
  let ?w = "w\<lparr>c_db := snd (delete_invalid_txs ids (c_db w))\<rparr>"
  have one: "iologged (DeleteInvalidTxs d ids) w = (Inr (Some ()), ?w)"
    by (simp add: iologged_def DeleteInvalidTxs_undisturbed [OF Cons.prems])
  obtain rs s where rs: "iomapM (\<lambda>ids. iologged (DeleteInvalidTxs d ids)) bs ?w = (Inr rs, ?w\<lparr>c_db := s\<rparr>)"
    "txs s = filter (\<lambda>t. \<not> (t_id t \<in> \<Union> (set ` set bs) \<and> t_block_id t = None)) (txs (c_db ?w))"
    using Cons.IH [of ?w] Cons.prems by auto
  have "txs (c_db ?w) = filter (\<lambda>t. \<not> (t_id t \<in> set ids \<and> t_block_id t = None)) (txs (c_db w))"
    by (simp add: delete_invalid_txs_def Let_def)
  then have "txs s = filter (\<lambda>t. \<not> (t_id t \<in> \<Union> (set ` set (ids # bs)) \<and> t_block_id t = None)) (txs (c_db w))"
    using rs(2) by (auto intro: filter_cong)
  then show ?case
    using one rs(1) by (intro exI [of _ "Some () # rs"] exI [of _ s]) (simp add: iobind_def ioret_def)
qed

definition resume_id :: "db \<Rightarrow> int option" where
  "resume_id s = (case Atoi (case metadata s ''validatedTransaction'' of None \<Rightarrow> ''0'' | Some x \<Rightarrow> x) of
     (n, None) \<Rightarrow> Some n | _ \<Rightarrow> None)"

lemma record_undisturbed:
  assumes "c_plans w = []"
  shows "\<exists>w'. iobind (iologged (GetTxAtBlockTime d date)) (\<lambda>r. case r of None \<Rightarrow> ioret ()
        | Some n \<Rightarrow> iobind (iologged (Set_key d ''validatedTransaction'' (Itoa n))) (\<lambda>_. ioret ())) w = (Inr (), w') \<and>
    txs (c_db w') = txs (c_db w)"
proof -
  obtain r where r: "GetTxAtBlockTime d date w = (r, w)" "\<forall>e. r \<noteq> Inl (Panic e) \<and> r \<noteq> Inl (Exit e)"
    using assms by (auto simp: GetTxAtBlockTime_def iowrapf_def QueryRow_def run_def undisturbed split: list.splits)
  have s: "Set_key d k x w = (Inr (), w\<lparr>c_db := (c_db w)\<lparr>metadata := (metadata (c_db w))(k \<mapsto> x)\<rparr>\<rparr>)" for k x
    by (simp add: Set_key_def iowrapf_def Exec_undisturbed [OF assms refl])
  show ?thesis
  proof (cases r)
    case (Inl e)
    then obtain e' where "r = Inl (Err e')" using r(2) by (cases e) auto
    then show ?thesis using r(1) by (simp add: iobind_def iologged_def ioret_def)
  next
    case (Inr n)
    then show ?thesis using r(1) s by (simp add: iobind_def iologged_def ioret_def)
  qed
qed

lemma validate_pending_undisturbed:
  assumes "c_plans w = []" "wf_db (c_db w)" "\<And>bs. set (sched bs) = set bs" "resume_id (c_db w) = Some n"
  shows "\<exists>w'. validate_pending d sched date v w = (Inr (), w') \<and>
    txs (c_db w') = filter (\<lambda>t. \<not> invalid_rows v n t) (txs (c_db w))"
proof -
  have get: "iologged (Get_key d ''validatedTransaction'') w = (Inr (metadata (c_db w) ''validatedTransaction''), w)"
    using assms(1) by (simp add: iologged_def Get_key_def iowrapf_def QueryRow_def run_def undisturbed split: option.split)
  have atoi: "Atoi (case metadata (c_db w) ''validatedTransaction'' of None \<Rightarrow> ''0'' | Some x \<Rightarrow> x) = (n, None)"
    using assms(4) unfolding resume_id_def by (auto split: prod.splits option.splits)
  let ?ts = "sort_key ptx_ID (pending_of (c_db w) n)"
  have pend: "iologged (GetPendingTxs d (Some n)) w = (Inr (Some ?ts), w)"
    using assms(1) by (simp add: iologged_def GetPendingTxs_def iowrapf_def Query_def Let_def undisturbed pending_of_def)
  let ?bs = "sched (delete_batches (invalidIDs v ?ts))"
  obtain rs s where del: "iomapM (\<lambda>ids. iologged (DeleteInvalidTxs d ids)) ?bs w = (Inr rs, w\<lparr>c_db := s\<rparr>)"
    "txs s = filter (\<lambda>t. \<not> (t_id t \<in> \<Union> (set ` set ?bs) \<and> t_block_id t = None)) (txs (c_db w))"
    using delete_all_undisturbed [OF assms(1)] by blast
  have "\<Union> (set ` set ?bs) = set (invalidIDs v ?ts)"
    unfolding assms(3) using batches_concat [of "invalidIDs v ?ts"] by (metis set_concat)
  also have "\<dots> = t_id ` {t \<in> set (txs (c_db w)). invalid_rows v n t}"
  proof -
    have "set (invalidIDs v ?ts) = set (invalidIDs v (pending_of (c_db w) n))" by (simp add: invalidIDs_def)
    then show ?thesis by (simp add: invalidIDs_pending)
  qed
  finally have ids: "t_id t \<in> \<Union> (set ` set ?bs) \<longleftrightarrow> invalid_rows v n t" if "t \<in> set (txs (c_db w))" for t
    using that wf_dbD(2) [OF assms(2)] by (auto simp: distinct_map dest: inj_onD)
  then have "txs s = filter (\<lambda>t. \<not> invalid_rows v n t) (txs (c_db w))"
    unfolding del(2) by (intro filter_cong) (auto simp: invalid_rows_def)
  moreover obtain w' where "iobind (iologged (GetTxAtBlockTime d date)) (\<lambda>r. case r of None \<Rightarrow> ioret ()
        | Some n \<Rightarrow> iobind (iologged (Set_key d ''validatedTransaction'' (Itoa n))) (\<lambda>_. ioret ())) (w\<lparr>c_db := s\<rparr>) = (Inr (), w')"
      "txs (c_db w') = txs s"
    using record_undisturbed [of "w\<lparr>c_db := s\<rparr>" d date] assms(1) by auto
  ultimately show ?thesis
    by (intro exI [of _ w'])
      (simp add: validate_pending_def delete_and_record_def iobind_def [of "iologged (Get_key _ _)"] get atoi
        iobind_def [of "iologged (GetPendingTxs _ _)"] pend iobind_def [of "iomapM _ _"] del(1))
qed

text \<open>The mempools of all answers are taken together.\<close>

lemma fetchMempool_union:
  assumes "fetchMempool net bc v n0 = (Inr v', n1)"
  shows "\<exists>mps. iomapM (\<lambda>_. iofatal ''failed to get mempool'' (GetMempool net bc)) (replicate mempoolReqs ()) n0 = (Inr mps, n1) \<and>
    mempool v' = mempool v \<union> \<Union> (set ` set mps)"
proof -
  have "mempool (fold (\<lambda>mp v. buildMempool v mp) mps v) = mempool v \<union> \<Union> (set ` set mps)" for mps
    by (induction mps arbitrary: v) (auto simp: buildMempool_def)
  then show ?thesis using assms unfolding fetchMempool_def by (auto elim!: iobind_eq_InrE)
qed


section \<open>A concrete run\<close>

text \<open>The sample database with a pending transaction that the node does not know.\<close>

definition dropped_conn :: conn where
  "dropped_conn = (sample_conn [])\<lparr>c_db := sample_db\<lparr>txs := txs sample_db @ [(sample_row 3 ''d'')\<lparr>t_block_id := None\<rparr>],
     tx_seq := 4\<rparr>\<rparr>"

text \<open>A node with the transaction m in its mempool.\<close>

definition mempool_net :: "unit net" where
  "mempool_net = \<lparr>n_do = (\<lambda>rq w. (Inr \<lparr>StatusCode = 200, rs_text = Inr [],
       rs_json = Inr (JObj [(''result'', JArr [JStr ''m''])])\<rparr>, w)),
     n_jitter = (\<lambda>k n. 0), n_resolve = (\<lambda>u p. Inr u), n_newreq = (\<lambda>rq. Inr ())\<rparr>"

lemma mempool_net: "GetMempool mempool_net small_bc () = (Inr [''m''], ())"
  by code_simp

lemma mempool_fetched:
  "fetchMempool mempool_net small_bc \<lparr>tv_dbThreads = 1, mempool = {}\<rparr> () = (Inr \<lparr>tv_dbThreads = 1, mempool = {''m''}\<rparr>, ())"
  by (simp add: fetchMempool_def mempoolReqs_def numeral_eq_Suc iobind_def iofatal_def mempool_net ioret_def buildMempool_def)


end
