(* ===== verification/Monitor.thy ===== *)
theory Monitor
  imports TxValidator
begin

text \<open>
  The monitor (\<open>cmd/monitor/main.go\<close>): it compares the heights of the database and the node, and after
  a reorganisation of the chain removes the transactions of orphaned blocks.
\<close>

section \<open>The monitor\<close>

definition newMonitor :: "Config \<Rightarrow> string \<Rightarrow> (DB_cfg \<Rightarrow> Database result) \<Rightarrow> Database result" where
  "newMonitor c coin newdb =
    rbind (fatal ''main'' (GetCoin c coin)) (\<lambda>cc.
    rbind (fatal ''main'' (GetDBConfig c ReadWrite cc)) (\<lambda>dbConfig.
    fatal ''main'' (newdb dbConfig)))"

text \<open>The two heights are reported when they differ; a failed request is only logged.\<close>

definition compareHeights :: "'n net \<Rightarrow> Blockchain \<Rightarrow> Database \<Rightarrow> ('n \<times> conn, (int \<times> int) option) io" where
  "compareHeights net bc d =
    iobind (iologged (on_snd (LastBlock d))) (\<lambda>r.
    case r of None \<Rightarrow> ioret None
    | Some lb \<Rightarrow>
        iobind (iologged (on_fst (GetChainInfo net bc))) (\<lambda>r.
        case r of None \<Rightarrow> ioret None
        | Some ci \<Rightarrow>
            iobind (iolift (deref lb)) (\<lambda>b.
            ioret (if last_Height b \<noteq> ci_Blocks ci then Some (last_Height b, ci_Blocks ci) else None))))"

definition handleOrphans :: "Database \<Rightarrow> (conn, unit) io" where
  "handleOrphans d =
    iobind (iologged (Get_key d ''orphanCount'')) (\<lambda>value.
    case value of None \<Rightarrow> ioret ()
    | Some value \<Rightarrow>
       (case Atoi value of (_, Some e) \<Rightarrow> ioret ()
        | (orphanCount, None) \<Rightarrow>
            iobind (iologged (GetOrphanCount d)) (\<lambda>r.
            case r of None \<Rightarrow> ioret ()
            | Some n \<Rightarrow>
                if n > orphanCount then
                  iobind (iologged (DeleteOrphans d)) (\<lambda>r.
                  case r of None \<Rightarrow> ioret ()
                  | Some _ \<Rightarrow> iobind (iologged (Set_key d ''orphanCount'' (Itoa n))) (\<lambda>_. ioret ()))
                else ioret ())))"

text \<open>
  The notification of the indexer: the height in the body is only logged, a body that cannot be
  decoded as well, and the answer does not wait for the orphans.
\<close>

definition newBlock :: "json result \<Rightarrow> Database \<Rightarrow> (conn, int) io" where
  "newBlock body d = iobind (handleOrphans d) (\<lambda>_. ioret 200)"

section \<open>Orphans\<close>

definition orphans :: "db \<Rightarrow> int" where
  "orphans s = int (length (filter is_orphaned (blocks s)))"

lemma DeleteOrphans_undisturbed:
  assumes "c_plans w = []"
  shows "DeleteOrphans d w = (Inr (), w\<lparr>c_db := snd (delete_orphans (c_db w))\<rparr>)"
proof -
  have "delete_orphans (c_db w) = (Inr (), snd (delete_orphans (c_db w)))" by (simp add: delete_orphans_def Let_def)
  then have "Exec (\<lambda>p. delete_orphans) w = (Inr (), w\<lparr>c_db := snd (delete_orphans (c_db w))\<rparr>)"
    by (rule Exec_undisturbed [OF assms])
  then show ?thesis
    unfolding DeleteOrphans_def Simple_try_upto
    by (cases "nat (i64 (Attempts (d_retry d) - 1))") (simp_all add: iowrapf_def)
qed

lemma handleOrphans_undisturbed:
  assumes "c_plans w = []" "metadata (c_db w) ''orphanCount'' = Some (Itoa k)" "in_i64 k"
  shows "handleOrphans d w = (Inr (),
    if orphans (c_db w) > k then
      let s = snd (delete_orphans (c_db w)) in
      w\<lparr>c_db := s\<lparr>metadata := (metadata s)(''orphanCount'' \<mapsto> Itoa (orphans (c_db w)))\<rparr>\<rparr>
    else w)"
proof -
  have get: "iologged (Get_key d ''orphanCount'') w = (Inr (Some (Itoa k)), w)"
    using assms(1,2) by (simp add: iologged_def Get_key_def iowrapf_def QueryRow_def run_def undisturbed)
  have count: "iologged (GetOrphanCount d) w = (Inr (Some (orphans (c_db w))), w)"
    using assms(1) by (simp add: iologged_def GetOrphanCount_def iowrapf_def QueryRow_def run_def undisturbed orphans_def)
  have set: "Set_key d x y w = (Inr (), w\<lparr>c_db := (c_db w)\<lparr>metadata := (metadata (c_db w))(x \<mapsto> y)\<rparr>\<rparr>)"
    if "c_plans w = []" for x y w
    by (simp add: Set_key_def iowrapf_def Exec_undisturbed [OF that refl])
  show ?thesis
    using assms(1)
    by (simp add: handleOrphans_def iobind_def get count Atoi_Itoa [OF assms(3)] iologged_def [of "DeleteOrphans d"]
        DeleteOrphans_undisturbed iologged_def [of "Set_key d _ _"] set ioret_def Let_def)
qed

lemma orphan_ids_mem:
  assumes "wf_db s" "t \<in> set (txs s)"
  shows "t_id t \<in> set (orphan_ids s) \<longleftrightarrow> in_orphan s t"
proof -
  have "u = t" if "u \<in> set (txs s)" "t_id u = t_id t" for u
    using wf_dbD(2) [OF assms(1)] assms(2) that by (auto simp: distinct_map dest: inj_onD)
  then show ?thesis using assms(2) by (auto simp: orphan_ids_def)
qed

text \<open>
  C13: when more blocks are orphaned than recorded, the monitor deletes the transactions of orphaned
  blocks, exactly these, and records the new number; otherwise it changes nothing.
\<close>

theorem handleOrphans_cleans:
  assumes "c_plans w = []" "metadata (c_db w) ''orphanCount'' = Some (Itoa k)" "in_i64 k" "wf_db (c_db w)"
  shows "\<exists>w'. handleOrphans d w = (Inr (), w') \<and>
    (if orphans (c_db w) > k then
       txs (c_db w') = filter (\<lambda>t. \<not> in_orphan (c_db w) t) (txs (c_db w)) \<and>
       (\<forall>t \<in> set (txs (c_db w')). \<not> in_orphan (c_db w') t) \<and>
       metadata (c_db w') ''orphanCount'' = Some (Itoa (orphans (c_db w')))
     else w' = w)"
proof -
  let ?s = "snd (delete_orphans (c_db w))"
  have "txs ?s = filter (\<lambda>t. t_id t \<notin> set (orphan_ids (c_db w))) (txs (c_db w))"
    by (simp add: delete_orphans_def Let_def)
  also have "\<dots> = filter (\<lambda>t. \<not> in_orphan (c_db w) t) (txs (c_db w))"
    using orphan_ids_mem [OF assms(4)] by (intro filter_cong) simp_all
  finally have "txs ?s = filter (\<lambda>t. \<not> in_orphan (c_db w) t) (txs (c_db w))" .
  moreover have "blocks ?s = blocks (c_db w)" by (simp add: delete_orphans_def Let_def)
  ultimately show ?thesis
    unfolding handleOrphans_undisturbed [OF assms(1-3)] by (auto simp: Let_def orphans_def in_orphan_def)
qed

text \<open>
  The number of orphans says little: when the chain switches back to a branch, as many blocks become
  active as become orphaned.  Here the branch b gives way to the branch a, and the transaction of the
  orphaned block b1 stays.
\<close>

definition reorg_db :: db where
  "reorg_db = fork_db\<lparr>txs := [(sample_row 1 ''p'')\<lparr>t_block_id := Some 3\<rparr>], tx_seq := 2,
     metadata := (metadata fork_db)(''orphanCount'' \<mapsto> Itoa 1)\<rparr>"

lemma reorg_unnoticed:
  "\<exists>i s. block_insert hd (hdr ''a2'' 2 ''a1'') 0 0 False reorg_db = Some (Inr i, s) \<and>
     (\<exists>t \<in> set (txs s). in_orphan s t) \<and>
     handleOrphans sample_handle ((sample_conn [])\<lparr>c_db := s\<rparr>) = (Inr (), (sample_conn [])\<lparr>c_db := s\<rparr>)"
proof -
  let ?r = "block_insert hd (hdr ''a2'' 2 ''a1'') 0 0 False reorg_db"
  have ev: "map_option (\<lambda>(r, s). (case r of Inr i \<Rightarrow> True | _ \<Rightarrow> False) \<and> (\<exists>t \<in> set (txs s). in_orphan s t) \<and>
      orphans s = 1 \<and> metadata s ''orphanCount'' = Some (Itoa 1)) ?r = Some True"
    by code_simp
  obtain i s where s: "?r = Some (Inr i, s)" "\<exists>t \<in> set (txs s). in_orphan s t" "orphans s = 1"
    "metadata s ''orphanCount'' = Some (Itoa 1)"
  proof -
    assume a: "\<And>i s. ?r = Some (Inr i, s) \<Longrightarrow> \<exists>t \<in> set (txs s). in_orphan s t \<Longrightarrow> orphans s = 1 \<Longrightarrow>
      metadata s ''orphanCount'' = Some (Itoa 1) \<Longrightarrow> thesis"
    obtain q s where q: "?r = Some (q, s)" using ev by auto
    then obtain i where "q = Inr i" using ev by (cases q) auto
    then show thesis using a [of i s] q ev by simp
  qed
  have "handleOrphans sample_handle ((sample_conn [])\<lparr>c_db := s\<rparr>) = (Inr (), (sample_conn [])\<lparr>c_db := s\<rparr>)"
    using handleOrphans_undisturbed [of "(sample_conn [])\<lparr>c_db := s\<rparr>" 1 sample_handle] s(3,4)
    by (simp add: sample_conn_def in_i64_def)
  then show ?thesis using s(1,2) by blast
qed

text \<open>Before a block is stored the comparison of heights dereferences nil.\<close>

lemma compareHeights_empty:
  assumes "c_plans (snd w) = []" "last_height (blocks (c_db (snd w))) = None"
    "GetChainInfo net bc (fst w) = (Inr ci, n)"
  shows "\<exists>m. fst (compareHeights net bc d w) = Inl (Panic m)"
proof -
  obtain r where "LastBlock d (snd w) = (Inr r, snd w)" "map_option last_Height r = None"
    using LastBlock_undisturbed [OF assms(1), of d] assms(2) by auto
  then show ?thesis
    using assms(3) by (simp add: compareHeights_def iobind_def iologged_def on_snd_def on_fst_def iolift_def deref_def)
qed

section \<open>A concrete run\<close>

definition orphaned_conn :: conn where
  "orphaned_conn = (sample_conn [])\<lparr>c_db := sample_db\<lparr>blocks := map (is_orphaned_update (\<lambda>_. True)) (blocks sample_db)\<rparr>\<rparr>"

theorem handleOrphans_cleans_witness:
  "\<exists>w'. handleOrphans sample_handle orphaned_conn = (Inr (), w') \<and> txs (c_db w') = [] \<and>
     metadata (c_db w') ''orphanCount'' = Some (Itoa 1)"
proof -
  have o: "orphans (c_db orphaned_conn) = 1" "\<forall>t \<in> set (txs (c_db orphaned_conn)). in_orphan (c_db orphaned_conn) t"
    by (simp_all add: orphans_def orphaned_conn_def in_orphan_def sample_conn_def sample_db_def new_block_row_def sample_row_def)
  have "Itoa 0 = ''0''" by (simp add: Itoa_def digits_rec digit_chr_eval)
  then have m: "metadata (c_db orphaned_conn) ''orphanCount'' = Some (Itoa 0)"
    by (simp add: orphaned_conn_def sample_conn_def sample_db_def empty_db_def)
  have "wf_db (c_db orphaned_conn)"
    by (simp add: orphaned_conn_def sample_conn_def wf_defs sample_db_def sample_row_def sample_out_row_def
        new_block_row_def hdr_def uniq_keys_def one_active_def)
  moreover have "c_plans orphaned_conn = []" by (simp add: orphaned_conn_def sample_conn_def)
  ultimately obtain w' where w': "handleOrphans sample_handle orphaned_conn = (Inr (), w')" "txs (c_db w') = []"
    "metadata (c_db w') ''orphanCount'' = Some (Itoa (orphans (c_db w')))"
    using handleOrphans_cleans [OF _ m, of sample_handle] o by (auto simp: in_i64_def)
  have "orphans (c_db w') = 1"
    using w'(1) handleOrphans_undisturbed [OF \<open>c_plans orphaned_conn = []\<close> m, of sample_handle] o(1)
    by (auto simp: in_i64_def Let_def orphans_def delete_orphans_def)
  then show ?thesis using w' by auto
qed

end
