(* ===== verification/CashAddr.thy ===== *)
theory CashAddr
  imports Prelude
begin

text \<open>
  The Bitcoin Cash address codec of \<open>V2/pkg/cashaddr/cashaddr.go\<close>: the BCH-code checksum
  (\<open>PolyMod\<close>, \<open>VerifyChecksum\<close>, \<open>CreateChecksum\<close>), the base 32 text form (\<open>Encode\<close>,
  \<open>DecodeCashAddress\<close>), the regrouping of bits (\<open>convertBits\<close>), the version byte
  (\<open>packAddressData\<close>) and the two address types with their constructors and payment scripts.
  \<open>data\<close> is a list of bytes, \<open>uint64\<close> and \<open>uint\<close> are 64 bit words.
\<close>

section \<open>Constants and types\<close>

type_synonym data = "byte list"

datatype AddressType = P2PKH | P2SH | OtherType int

fun AddressType_int :: "AddressType \<Rightarrow> int" where
  "AddressType_int P2PKH = 0"
| "AddressType_int P2SH = 1"
| "AddressType_int (OtherType n) = n"

definition ErrChecksumMismatch :: gerror where
  "ErrChecksumMismatch = ErrNew ''checksum mismatch''"

definition ErrUnknownAddressType :: gerror where
  "ErrUnknownAddressType = ErrNew ''unknown address type''"

text \<open>\<open>ripemd160.Size\<close>, the length of a RIPEMD-160 digest.\<close>

definition ripemd160_Size :: nat where
  "ripemd160_Size = 20"

text \<open>
  The names of the three networks are constants of btcd's \<open>chaincfg\<close> package, so they are a
  parameter; \<open>Prefixes\<close> is the map that \<open>init\<close> fills.
\<close>

record chaincfg =
  MainNetParams_Name :: string
  TestNet3Params_Name :: string
  RegressionNetParams_Name :: string

definition Prefixes :: "chaincfg \<Rightarrow> string \<Rightarrow> string option" where
  "Prefixes cfg = Map.empty
     (MainNetParams_Name cfg \<mapsto> ''bitcoincash'',
      TestNet3Params_Name cfg \<mapsto> ''bchtest'',
      RegressionNetParams_Name cfg \<mapsto> ''bchreg'')"

definition CHARSET :: string where
  "CHARSET = ''qpzry9x8gf2tvdw0s3jn54khce6mua7l''"

definition CHARSET_REV :: "int list" where
  "CHARSET_REV = [
    -1, -1, -1, -1, -1, -1, -1, -1, -1, -1, -1, -1, -1, -1, -1, -1, -1, -1, -1,
    -1, -1, -1, -1, -1, -1, -1, -1, -1, -1, -1, -1, -1, -1, -1, -1, -1, -1, -1,
    -1, -1, -1, -1, -1, -1, -1, -1, -1, -1, 15, -1, 10, 17, 21, 20, 26, 30, 7,
    5, -1, -1, -1, -1, -1, -1, -1, 29, -1, 24, 13, 25, 9, 8, 23, -1, 18, 22,
    31, 27, 19, -1, 1, 0, 3, 16, 11, 28, 12, 14, 6, 4, 2, -1, -1, -1, -1,
    -1, -1, 29, -1, 24, 13, 25, 9, 8, 23, -1, 18, 22, 31, 27, 19, -1, 1, 0,
    3, 16, 11, 28, 12, 14, 6, 4, 2, -1, -1, -1, -1, -1]"

section \<open>The checksum\<close>

definition Cat :: "data \<Rightarrow> data \<Rightarrow> data" where
  "Cat x y = x @ y"

text \<open>One round of the loop of \<open>PolyMod\<close>; \<open>c0\<close> is truncated to a byte as in the code.\<close>

definition PolyMod_round :: "64 word \<Rightarrow> byte \<Rightarrow> 64 word" where
  "PolyMod_round c d =
    (let c0 = (ucast (drop_bit 35 c) :: byte);
         c = push_bit 5 (c AND 0x07ffffffff) XOR ucast d;
         c = (if c0 AND 0x01 > 0 then c XOR 0x98f2bc8e61 else c);
         c = (if c0 AND 0x02 > 0 then c XOR 0x79b76d99e2 else c);
         c = (if c0 AND 0x04 > 0 then c XOR 0xf33e5fb3c4 else c);
         c = (if c0 AND 0x08 > 0 then c XOR 0xae2eabe2a8 else c);
         c = (if c0 AND 0x10 > 0 then c XOR 0x1e4f43e470 else c)
     in c)"

definition PolyMod :: "data \<Rightarrow> 64 word" where
  "PolyMod v = foldl PolyMod_round 1 v XOR 1"

definition LowerCase :: "byte \<Rightarrow> byte" where
  "LowerCase c = c OR 0x20"

definition ExpandPrefix :: "string \<Rightarrow> data" where
  "ExpandPrefix prefix = map (\<lambda>ch. byte_of ch AND 0x1f) prefix @ [0]"

definition VerifyChecksum :: "string \<Rightarrow> data \<Rightarrow> bool" where
  "VerifyChecksum prefix payload \<longleftrightarrow> PolyMod (Cat (ExpandPrefix prefix) payload) = 0"

definition CreateChecksum :: "string \<Rightarrow> data \<Rightarrow> data" where
  "CreateChecksum prefix payload =
    (let enc = Cat (ExpandPrefix prefix) payload;
         enc = Cat enc (replicate 8 0);
         m = PolyMod enc
     in map (\<lambda>i. ucast (drop_bit (5 * (7 - i)) m AND 0x1f)) [0..<8])"

section \<open>Text form\<close>

text \<open>\<open>string(CHARSET[c])\<close>, which panics outside the 32 characters.\<close>

definition charset_at :: "byte \<Rightarrow> char result" where
  "charset_at c = (if unat c < length CHARSET then Inr (CHARSET ! unat c)
                   else Inl (Panic ''index out of range''))"

definition Encode :: "string \<Rightarrow> data \<Rightarrow> string result" where
  "Encode prefix payload =
    (let checksum = CreateChecksum prefix payload;
         combined = Cat payload checksum
     in rmapM charset_at combined)"

text \<open>
  The sanity-check loop of \<open>DecodeCashAddress\<close> over the remaining characters, with the loop
  counter and the three local variables.
\<close>

fun decode_scan :: "nat \<Rightarrow> bool \<Rightarrow> bool \<Rightarrow> nat \<Rightarrow> string \<Rightarrow> (bool \<times> bool \<times> nat) result" where
  "decode_scan i lower upper prefixSize [] = Inr (lower, upper, prefixSize)"
| "decode_scan i lower upper prefixSize (ch # rest) =
    (let c = (of_char ch :: nat) in
     if of_char (CHR ''a'') \<le> c \<and> c \<le> of_char (CHR ''z'') then
       decode_scan (Suc i) True upper prefixSize rest
     else if of_char (CHR ''A'') \<le> c \<and> c \<le> of_char (CHR ''Z'') then
       decode_scan (Suc i) lower True prefixSize rest
     else if of_char (CHR ''0'') \<le> c \<and> c \<le> of_char (CHR ''9'') then
       (if prefixSize = 0 then Inl (Err (ErrNew ''Addresses cannot have numbers in the prefix''))
        else decode_scan (Suc i) lower upper prefixSize rest)
     else if ch = CHR '':'' then
       (if i = 0 \<or> prefixSize \<noteq> 0 then
          Inl (Err (ErrNew ''The separator must not be the first character''))
        else decode_scan (Suc i) lower upper i rest)
     else Inl (Err (ErrNew ''Unexpected character'')))"

definition decode_char :: "char \<Rightarrow> byte result" where
  "decode_char ch =
    (let c = (of_char ch :: nat) in
     if c > 127 \<or> CHARSET_REV ! c = -1 then Inl (Err (ErrNew ''Invalid character''))
     else Inr (word_of_int (CHARSET_REV ! c)))"

text \<open>
  \<open>values[:len(values)-8]\<close> panics when fewer than eight values passed the checksum.
\<close>

definition DecodeCashAddress :: "string \<Rightarrow> (string \<times> data) result" where
  "DecodeCashAddress str =
    rbind (decode_scan 0 False False 0 str) (\<lambda>(lower, upper, prefixSize).
      if prefixSize = 0 then Inl (Err (ErrNew ''Address must have a prefix''))
      else if upper \<and> lower then
        Inl (Err (ErrNew ''Addresses cannot use both upper and lower case characters''))
      else
        let prefix = map (\<lambda>ch. char_at (LowerCase (byte_of ch))) (take prefixSize str) in
        rbind (rmapM decode_char (drop (prefixSize + 1) str)) (\<lambda>values.
          if \<not> VerifyChecksum prefix values then Inl (Err ErrChecksumMismatch)
          else if length values < 8 then Inl (Panic ''slice bounds out of range'')
          else Inr (prefix, take (length values - 8) values)))"

section \<open>Regrouping bits and the version byte\<close>

text \<open>
  The inner loop of \<open>convertBits\<close>.  Every call has \<open>tobits\<close> 5 or 8; the guard on a zero
  \<open>tobits\<close> only serves the totality of the definition.
\<close>

function convert_inner :: "nat \<Rightarrow> 64 word \<Rightarrow> nat \<Rightarrow> 64 word list \<Rightarrow> nat \<times> 64 word list" where
  "convert_inner tobits acc bits ret =
    (if 0 < tobits \<and> tobits \<le> bits then
       convert_inner tobits acc (bits - tobits)
         (ret @ [drop_bit (bits - tobits) acc AND (2 ^ tobits - 1)])
     else (bits, ret))"
  by pat_completeness auto
termination
  by (relation "measure (\<lambda>(tobits, acc, bits, ret). bits)") auto

declare convert_inner.simps [simp del]

fun convert_loop ::
  "nat \<Rightarrow> nat \<Rightarrow> 64 word \<Rightarrow> nat \<Rightarrow> 64 word list \<Rightarrow> 64 word list \<Rightarrow> 64 word \<times> nat \<times> 64 word list" where
  "convert_loop fromBits tobits acc bits ret [] = (acc, bits, ret)"
| "convert_loop fromBits tobits acc bits ret (value # rest) =
    (let acc = (push_bit fromBits acc OR value) AND (2 ^ (fromBits + tobits - 1) - 1);
         (bits, ret) = convert_inner tobits acc (bits + fromBits) ret
     in convert_loop fromBits tobits acc bits ret rest)"

definition convertBits :: "data \<Rightarrow> nat \<Rightarrow> nat \<Rightarrow> bool \<Rightarrow> data result" where
  "convertBits dat fromBits tobits pad =
    (let (acc, bits, ret) = convert_loop fromBits tobits 0 0 [] (map ucast dat);
         maxv = 2 ^ tobits - 1
     in if pad then
          (let ret = (if bits > 0 then ret @ [push_bit (tobits - bits) acc AND maxv] else ret)
           in Inr (map ucast ret))
        else if bits \<ge> fromBits \<or> push_bit (tobits - bits) acc AND maxv \<noteq> 0 then
          Inl (Err (ErrNew ''encoding padding error''))
        else Inr (map ucast ret))"

text \<open>
  \<open>encodedSize\<close> is computed in \<open>uint\<close>, so a hash shorter than 20 bytes wraps to a huge
  value; \<open>(len(addrHash)-20)%4\<close> is signed.
\<close>

definition packAddressData :: "AddressType \<Rightarrow> data \<Rightarrow> data result" where
  "packAddressData addrType addrHash =
    (if addrType \<noteq> P2PKH \<and> addrType \<noteq> P2SH then Inl (Err (ErrNew ''invalid addrtype''))
     else
       let versionByte = push_bit 3 (word_of_int (AddressType_int addrType) :: 64 word);
           encodedSize = (word_of_nat (length addrHash) - 20 :: 64 word) div 4
       in if go_rem (int (length addrHash) - 20) 4 \<noteq> 0 then
            Inl (Err (ErrNew ''invalid addrhash size''))
          else if encodedSize < 0 \<or> encodedSize > 8 then
            Inl (Err (ErrNew ''encoded size out of valid range''))
          else
            let versionByte = versionByte OR encodedSize
            in convertBits (ucast versionByte # addrHash) 8 5 True)"

definition CheckEncodeCashAddress :: "data \<Rightarrow> string \<Rightarrow> AddressType \<Rightarrow> string result" where
  "CheckEncodeCashAddress input prefix t =
    (case packAddressData t input of
       Inl (Err e) \<Rightarrow> Inr ''''
     | Inl f \<Rightarrow> Inl f
     | Inr k \<Rightarrow> Encode prefix k)"

text \<open>
  The result carries the payload, prefix and type of the successful return; \<open>t\<close> keeps its zero
  value \<open>P2PKH\<close> for every version byte other than 0x08.
\<close>

definition CheckDecodeCashAddress :: "string \<Rightarrow> (data \<times> string \<times> AddressType) result" where
  "CheckDecodeCashAddress input =
    rbind (DecodeCashAddress input) (\<lambda>(prefix, dat).
      rbind (convertBits dat 5 8 False) (\<lambda>dat.
        if length dat \<noteq> 21 then Inl (Err (ErrNew ''Incorrect data length''))
        else
          let t = (if dat ! 0 = 0x00 then P2PKH else if dat ! 0 = 0x08 then P2SH else P2PKH)
          in Inr (take 20 (drop 1 dat), prefix, t)))"

definition encodeCashAddress :: "data \<Rightarrow> string \<Rightarrow> AddressType \<Rightarrow> string result" where
  "encodeCashAddress hash160 prefix t =
    (if length hash160 < ripemd160_Size then Inl (Panic ''slice bounds out of range'')
     else CheckEncodeCashAddress (take ripemd160_Size hash160) prefix t)"

section \<open>The two address types\<close>

record CashAddressHash =
  addr_hash :: data
  addr_prefix :: string

text \<open>
  \<open>btcutil.Address\<close> restricted to the two implementations of this package, which have the same
  fields.
\<close>

datatype Address =
    CashAddressPubKeyHash CashAddressHash
  | CashAddressScriptHash CashAddressHash

definition newCashAddressPubKeyHash :: "chaincfg \<Rightarrow> data \<Rightarrow> string \<Rightarrow> Address result" where
  "newCashAddressPubKeyHash cfg pkHash netName =
    (if length pkHash \<noteq> ripemd160_Size then Inl (Err (ErrNew ''pkHash must be 20 bytes''))
     else case Prefixes cfg netName of
       None \<Rightarrow> Inl (Err (ErrNew ''unknown network parameters''))
     | Some pre \<Rightarrow> Inr (CashAddressPubKeyHash \<lparr>addr_hash = pkHash, addr_prefix = pre\<rparr>))"

definition newCashAddressScriptHashFromHash :: "chaincfg \<Rightarrow> data \<Rightarrow> string \<Rightarrow> Address result" where
  "newCashAddressScriptHashFromHash cfg scriptHash netName =
    (if length scriptHash \<noteq> ripemd160_Size then Inl (Err (ErrNew ''scriptHash must be 20 bytes''))
     else case Prefixes cfg netName of
       None \<Rightarrow> Inl (Err (ErrNew ''unknown network parameters''))
     | Some pre \<Rightarrow> Inr (CashAddressScriptHash \<lparr>addr_hash = scriptHash, addr_prefix = pre\<rparr>))"

text \<open>\<open>btcutil.Hash160\<close> is a parameter.\<close>

definition NewCashAddressScriptHash ::
  "(data \<Rightarrow> data) \<Rightarrow> chaincfg \<Rightarrow> data \<Rightarrow> string \<Rightarrow> Address result" where
  "NewCashAddressScriptHash Hash160 cfg serializedScript netName =
     newCashAddressScriptHashFromHash cfg (Hash160 serializedScript) netName"

fun EncodeAddress :: "Address \<Rightarrow> string result" where
  "EncodeAddress (CashAddressPubKeyHash a) = encodeCashAddress (addr_hash a) (addr_prefix a) P2PKH"
| "EncodeAddress (CashAddressScriptHash a) = encodeCashAddress (addr_hash a) (addr_prefix a) P2SH"

fun ScriptAddress :: "Address \<Rightarrow> data" where
  "ScriptAddress (CashAddressPubKeyHash a) = addr_hash a"
| "ScriptAddress (CashAddressScriptHash a) = addr_hash a"

fun Address_prefix :: "Address \<Rightarrow> string" where
  "Address_prefix (CashAddressPubKeyHash a) = addr_prefix a"
| "Address_prefix (CashAddressScriptHash a) = addr_prefix a"

definition IsForNet :: "chaincfg \<Rightarrow> Address \<Rightarrow> string \<Rightarrow> bool" where
  "IsForNet cfg a netName =
    (case Prefixes cfg netName of None \<Rightarrow> False | Some pre \<Rightarrow> Address_prefix a = pre)"

definition DecodeAddress :: "chaincfg \<Rightarrow> string \<Rightarrow> string \<Rightarrow> Address result" where
  "DecodeAddress cfg addr netName =
    (case Prefixes cfg netName of
       None \<Rightarrow> Inl (Err (ErrNew ''unknown network parameters''))
     | Some pre \<Rightarrow>
        let addr = (if length addr \<ge> length pre + 1 \<and> take (length pre + 1) addr \<noteq> pre @ '':''
                    then pre @ '':'' @ addr else addr)
        in case CheckDecodeCashAddress addr of
             Inl (Err e) \<Rightarrow>
               if e = ErrChecksumMismatch then Inl (Err ErrChecksumMismatch)
               else Inl (Err (ErrNew ''decoded address is of unknown format''))
           | Inl f \<Rightarrow> Inl f
           | Inr (decoded, _, typ) \<Rightarrow>
               if length decoded = ripemd160_Size then
                 (case typ of
                    P2PKH \<Rightarrow> newCashAddressPubKeyHash cfg decoded netName
                  | P2SH \<Rightarrow> newCashAddressScriptHashFromHash cfg decoded netName
                  | OtherType _ \<Rightarrow> Inl (Err ErrUnknownAddressType))
               else Inl (Err (ErrNew ''decoded address is of unknown size'')))"

section \<open>Payment scripts\<close>

text \<open>
  The script builder and the opcode values are btcd's \<open>txscript\<close>: a parameter that runs a list
  of builder calls, and the opcodes as a record.
\<close>

datatype builder_call = AddOp byte | AddData data

record txscript =
  OP_DUP :: byte
  OP_HASH160 :: byte
  OP_EQUALVERIFY :: byte
  OP_CHECKSIG :: byte
  OP_EQUAL :: byte

definition payToPubKeyHashScript ::
  "txscript \<Rightarrow> (builder_call list \<Rightarrow> data result) \<Rightarrow> data \<Rightarrow> data result" where
  "payToPubKeyHashScript ops Script pubKeyHash =
     Script [AddOp (OP_DUP ops), AddOp (OP_HASH160 ops), AddData pubKeyHash,
             AddOp (OP_EQUALVERIFY ops), AddOp (OP_CHECKSIG ops)]"

definition payToScriptHashScript ::
  "txscript \<Rightarrow> (builder_call list \<Rightarrow> data result) \<Rightarrow> data \<Rightarrow> data result" where
  "payToScriptHashScript ops Script scriptHash =
     Script [AddOp (OP_HASH160 ops), AddData scriptHash, AddOp (OP_EQUAL ops)]"

text \<open>
  The argument is an interface value: absent (\<open>None\<close>) stands for a nil pointer of either type.
\<close>

fun cashPayToAddrScript ::
  "txscript \<Rightarrow> (builder_call list \<Rightarrow> data result) \<Rightarrow> Address option \<Rightarrow> data result" where
  "cashPayToAddrScript ops Script None =
     Inl (Err (ErrNew ''unable to generate payment script for nil address''))"
| "cashPayToAddrScript ops Script (Some (CashAddressPubKeyHash a)) =
     payToPubKeyHashScript ops Script (ScriptAddress (CashAddressPubKeyHash a))"
| "cashPayToAddrScript ops Script (Some (CashAddressScriptHash a)) =
     payToScriptHashScript ops Script (ScriptAddress (CashAddressScriptHash a))"

definition ExtractPkScriptAddrs :: "chaincfg \<Rightarrow> data \<Rightarrow> string \<Rightarrow> Address result" where
  "ExtractPkScriptAddrs cfg pkScript netName =
    (if length pkScript = 1 + 1 + 20 + 1 \<and> pkScript ! 0 = 0xa9 \<and> pkScript ! 1 = 0x14 \<and>
        pkScript ! 22 = 0x87 then
       newCashAddressScriptHashFromHash cfg (take 20 (drop 2 pkScript)) netName
     else if length pkScript = 1 + 1 + 1 + 20 + 1 + 1 \<and> pkScript ! 0 = 0x76 \<and> pkScript ! 1 = 0xa9 \<and>
        pkScript ! 2 = 0x14 \<and> pkScript ! 23 = 0x88 \<and> pkScript ! 24 = 0xac then
       newCashAddressPubKeyHash cfg (take 20 (drop 3 pkScript)) netName
     else Inl (Err (ErrNew ''unknown script type'')))"

end
