(* ===== verification/CashAddr_Checksum.thy ===== *)
theory CashAddr_Checksum
  imports CashAddr
begin

text \<open>
  The checksum of \<open>cashaddr.go\<close> as a linear code: a round of \<open>PolyMod\<close> is a linear map of the
  40 bit state followed by the addition of the next symbol, the map is injective, and eight
  symbols started from zero are just packed.  From this follow the correctness of
  \<open>CreateChecksum\<close> and the detection of every single-symbol error.
\<close>

section \<open>One round as a linear map\<close>

definition poly_shift :: "64 word \<Rightarrow> 64 word" where
  "poly_shift c =
     push_bit 5 (c AND 0x07ffffffff)
     XOR (if bit c 35 then 0x98f2bc8e61 else 0)
     XOR (if bit c 36 then 0x79b76d99e2 else 0)
     XOR (if bit c 37 then 0xf33e5fb3c4 else 0)
     XOR (if bit c 38 then 0xae2eabe2a8 else 0)
     XOR (if bit c 39 then 0x1e4f43e470 else 0)"

lemma c0_bit:
  fixes c :: "64 word"
  assumes "n < 8"
  shows "(ucast (drop_bit 35 c) :: byte) AND 2 ^ n > 0 \<longleftrightarrow> bit c (35 + n)"
proof -
  have "(ucast (drop_bit 35 c) :: byte) AND 2 ^ n > 0 \<longleftrightarrow> bit (ucast (drop_bit 35 c) :: byte) n"
    by (metis and_exp_eq_0_iff_not_bit word_greater_zero_iff)
  also have "\<dots> \<longleftrightarrow> bit c (35 + n)"
    using assms by (simp add: bit_simps)
  finally show ?thesis .
qed

lemmas c0_bits =
  c0_bit [of 0, simplified] c0_bit [of 1, simplified] c0_bit [of 2, simplified]
  c0_bit [of 3, simplified] c0_bit [of 4, simplified]

lemma PolyMod_round_eq: "PolyMod_round c d = poly_shift c XOR ucast d"
  unfolding PolyMod_round_def poly_shift_def Let_def c0_bits
  by (simp add: ac_simps)

lemma if_xor_linear:
  fixes g :: "64 word"
  shows "(if P \<noteq> Q then g else 0) = (if P then g else 0) XOR (if Q then g else 0)"
  by simp

lemma poly_shift_xor: "poly_shift (a XOR b) = poly_shift a XOR poly_shift b"
proof -
  have "push_bit 5 ((a XOR b) AND 0x07ffffffff) =
      push_bit 5 (a AND 0x07ffffffff) XOR push_bit 5 (b AND (0x07ffffffff :: 64 word))"
    by (auto simp: bit_eq_iff bit_simps)
  then show ?thesis
    unfolding poly_shift_def bit_xor_iff if_xor_linear by (simp only: ac_simps)
qed

lemma poly_shift_0 [simp]: "poly_shift 0 = 0"
  by (simp add: poly_shift_def)

text \<open>The low five bits of the five constants are the unit vectors, so nothing is lost.\<close>

lemma poly_shift_low_bits:
  "bit (poly_shift c) 0 = bit c 35"
  "bit (poly_shift c) 1 = bit c 36"
  "bit (poly_shift c) 2 = bit c 37"
  "bit (poly_shift c) 3 = bit c 38"
  "bit (poly_shift c) 4 = bit c 39"
  by (simp_all add: poly_shift_def bit_simps)

lemma mask35: "(0x07ffffffff :: 64 word) = mask 35"
  by (simp add: mask_eq_exp_minus_1)

lemma poly_shift_kernel:
  assumes "poly_shift c = 0"
  shows "take_bit 40 c = 0"
proof -
  have hi: "\<not> bit c 35" "\<not> bit c 36" "\<not> bit c 37" "\<not> bit c 38" "\<not> bit c 39"
    using poly_shift_low_bits [of c] assms by simp_all
  with assms have lo: "push_bit 5 (take_bit 35 c) = 0"
    by (simp add: poly_shift_def mask35 take_bit_eq_mask)
  have "\<not> bit c n" if "n < 35" for n
  proof -
    have "bit (push_bit 5 (take_bit 35 c)) (n + 5) = bit c n"
      using that by (simp add: bit_simps)
    with lo show ?thesis by simp
  qed
  moreover have "n < 35 \<or> n = 35 \<or> n = 36 \<or> n = 37 \<or> n = 38 \<or> n = 39" if "n < 40" for n :: nat
    using that by arith
  ultimately have "\<not> bit c n" if "n < 40" for n
    using hi that by blast
  then show ?thesis
    by (auto simp: bit_eq_iff bit_take_bit_iff)
qed

lemma bit_lt_exp:
  fixes g :: "64 word"
  shows "take_bit k g = g \<Longrightarrow> bit g n \<Longrightarrow> n < k"
  by (metis bit_take_bit_iff)

text \<open>The state of \<open>PolyMod\<close> never leaves 40 bits while its symbols have five.\<close>

lemma poly_shift_40: "take_bit 40 (poly_shift c) = poly_shift c"
proof -
  have "take_bit 40 (push_bit 5 (take_bit 35 c)) = push_bit 5 (take_bit 35 c)"
    by (auto simp: bit_eq_iff bit_simps)
  moreover have "take_bit 40 (if b then g else 0) = (if b then g else 0)"
    if "take_bit 40 g = g" for b and g :: "64 word"
    using that by simp
  ultimately show ?thesis
    unfolding poly_shift_def mask35 take_bit_eq_mask [symmetric] by (simp add: take_bit_xor)
qed

definition sym5 :: "byte \<Rightarrow> bool" where
  "sym5 d \<longleftrightarrow> unat d < 32"

lemma sym5_bit: "sym5 d \<longleftrightarrow> take_bit 5 d = d"
  by (simp add: sym5_def take_bit_self_iff)

lemma take_bit_ucast_byte:
  fixes d :: byte
  assumes "8 \<le> n"
  shows "take_bit n (ucast d :: 64 word) = ucast d"
proof -
  have "i < n" if "bit d i" for i
    using bit_imp_le_length [OF that] assms by simp
  then show ?thesis
    by (auto simp: bit_eq_iff bit_simps)
qed

lemma take_bit_ucast_sym5:
  assumes "sym5 d"
  shows "take_bit 5 (ucast d :: 64 word) = ucast d"
proof -
  have "i < 5" if "bit d i" for i
    using assms that by (metis bit_take_bit_iff sym5_bit)
  then show ?thesis
    by (auto simp: bit_eq_iff bit_simps)
qed

section \<open>Runs of rounds\<close>

abbreviation rounds :: "64 word \<Rightarrow> data \<Rightarrow> 64 word" where
  "rounds \<equiv> foldl PolyMod_round"

lemma rounds_40:
  "take_bit 40 c = c \<Longrightarrow> take_bit 40 (rounds c ds) = rounds c ds"
  by (induction ds arbitrary: c)
    (simp_all add: PolyMod_round_eq take_bit_xor poly_shift_40 take_bit_ucast_byte)

lemma rounds_xor:
  "rounds (a XOR b) ds = rounds a ds XOR (poly_shift ^^ length ds) b"
proof (induction ds arbitrary: a b)
  case Nil
  then show ?case by simp
next
  case (Cons d ds)
  have "PolyMod_round (a XOR b) d = PolyMod_round a d XOR poly_shift b"
    by (simp add: PolyMod_round_eq poly_shift_xor ac_simps)
  then show ?case
    by (simp add: Cons.IH funpow_swap1)
qed

lemma rounds_split: "rounds c ds = rounds 0 ds XOR (poly_shift ^^ length ds) c"
  using rounds_xor [of 0 c ds] by simp

lemma poly_shift_pow_nonzero:
  "take_bit 40 e = e \<Longrightarrow> e \<noteq> 0 \<Longrightarrow> (poly_shift ^^ n) e \<noteq> 0"
proof (induction n arbitrary: e)
  case 0
  then show ?case by simp
next
  case (Suc n)
  have "poly_shift e \<noteq> 0"
    using poly_shift_kernel [of e] Suc.prems by auto
  then have "(poly_shift ^^ n) (poly_shift e) \<noteq> 0"
    by (intro Suc.IH poly_shift_40)
  then show ?case by (simp add: funpow_swap1)
qed

lemma rounds_zeros: "rounds 0 (replicate n 0) = 0"
  by (induction n) (simp_all add: PolyMod_round_eq)

text \<open>Up to eight symbols from a zero state are packed five bits each.\<close>

definition pack :: "data \<Rightarrow> 64 word" where
  "pack = foldl (\<lambda>c d. push_bit 5 c XOR ucast d) 0"

lemma pack_simps [simp]:
  "pack [] = 0"
  "pack (ds @ [d]) = push_bit 5 (pack ds) XOR ucast d"
  by (simp_all add: pack_def)

lemma pack_bound:
  "\<forall>d \<in> set ds. sym5 d \<Longrightarrow> take_bit (5 * length ds) (pack ds) = pack ds"
proof (induction ds rule: rev_induct)
  case Nil
  then show ?case by simp
next
  case (snoc d ds)
  have "take_bit (5 * length ds + 5) (push_bit 5 (pack ds)) = push_bit 5 (pack ds)"
    using snoc by (simp add: take_bit_push_bit)
  moreover have "take_bit (5 * length ds + 5) (ucast d :: 64 word) = ucast d"
  proof -
    have "take_bit (5 * length ds + 5) (take_bit 5 (ucast d :: 64 word)) = take_bit 5 (ucast d)"
      by (simp add: min_def)
    then show ?thesis using snoc.prems by (simp add: take_bit_ucast_sym5)
  qed
  ultimately show ?case
    by (simp add: take_bit_xor add.commute)
qed

lemma pack_40: "length ds \<le> 8 \<Longrightarrow> \<forall>d \<in> set ds. sym5 d \<Longrightarrow> take_bit 40 (pack ds) = pack ds"
  by (rule take_bit_stable [OF pack_bound]) simp_all

lemma poly_shift_small:
  assumes "take_bit 35 c = c"
  shows "poly_shift c = push_bit 5 c"
proof -
  have "\<not> bit c n" if "35 \<le> n" for n
    using that assms by (metis bit_take_bit_iff not_less)
  then show ?thesis
    using assms by (simp add: poly_shift_def mask35 flip: take_bit_eq_mask)
qed

lemma rounds_pack:
  "length ds \<le> 8 \<Longrightarrow> \<forall>d \<in> set ds. sym5 d \<Longrightarrow> rounds 0 ds = pack ds"
proof (induction ds rule: rev_induct)
  case Nil
  then show ?case by simp
next
  case (snoc d ds)
  have "take_bit (5 * length ds) (pack ds) = pack ds"
    using snoc.prems by (intro pack_bound) simp
  then have "take_bit 35 (pack ds) = pack ds"
    by (rule take_bit_stable) (use snoc.prems in simp)
  with snoc show ?case
    by (simp add: PolyMod_round_eq poly_shift_small)
qed

lemma push_bit_inj_take:
  fixes a b :: "64 word"
  assumes "push_bit n a = push_bit n b" "take_bit (64 - n) a = a" "take_bit (64 - n) b = b" "n \<le> 64"
  shows "a = b"
proof -
  have "bit a i = bit b i" if "i < 64 - n" for i
  proof -
    have "i + n < 64" using that by arith
    then show ?thesis
      using arg_cong [OF assms(1), of "\<lambda>w. bit w (i + n)"] by (simp add: bit_push_bit_iff)
  qed
  then have "take_bit (64 - n) a = take_bit (64 - n) b"
    by (auto simp: bit_eq_iff bit_take_bit_iff)
  then show ?thesis unfolding assms(2,3) .
qed

lemma pack_inj:
  "\<lbrakk>length xs = length ys; 5 * length xs \<le> 64; \<forall>d \<in> set xs. sym5 d; \<forall>d \<in> set ys. sym5 d;
    pack xs = pack ys\<rbrakk> \<Longrightarrow> xs = ys"
proof (induction xs arbitrary: ys rule: rev_induct)
  case Nil
  then show ?case by simp
next
  case (snoc x xs)
  then obtain y ys' where ys: "ys = ys' @ [y]"
    by (cases ys rule: rev_cases) auto
  have eq: "push_bit 5 (pack xs) XOR ucast x = push_bit 5 (pack ys') XOR ucast y"
    using snoc.prems ys by simp
  have low: "take_bit 5 (push_bit 5 (pack zs) XOR ucast z) = ucast z"
    if "sym5 z" for zs and z :: byte
    using that by (simp add: take_bit_xor take_bit_push_bit take_bit_ucast_sym5)
  have xy: "x = y"
    using low [of x xs] low [of y ys'] eq snoc.prems ys by simp
  with eq have "push_bit 5 (pack xs) = push_bit 5 (pack ys')"
    by simp
  moreover have "take_bit 59 (pack zs) = pack zs"
    if "length zs = length xs" "\<forall>d \<in> set zs. sym5 d" for zs
    by (rule take_bit_stable [OF pack_bound [OF that(2)]]) (use snoc.prems that in simp)
  ultimately have "pack xs = pack ys'"
    using snoc.prems ys push_bit_inj_take [of 5 "pack xs" "pack ys'"] by simp
  then have "xs = ys'"
    using snoc.prems ys by (intro snoc.IH) auto
  with xy ys show ?case by simp
qed

section \<open>Creating and verifying a checksum\<close>

lemma mask5: "(0x1f :: 64 word) = mask 5"
  by (simp add: mask_eq_exp_minus_1)

lemma pack_groups:
  "pack (map (\<lambda>i. ucast (drop_bit (5 * (k - 1 - i)) m AND 0x1f)) [0..<k]) = take_bit (5 * k) m"
proof (induction k arbitrary: m)
  case 0
  then show ?case by simp
next
  case (Suc k)
  let ?g = "\<lambda>k m i. (ucast (drop_bit (5 * (k - 1 - i)) m AND 0x1f) :: byte)"
  have "drop_bit (5 * (k - i)) m = drop_bit (5 * (k - 1 - i)) (drop_bit 5 m)" if "i < k" for i
    using that by (simp add: drop_bit_drop_bit) (simp add: algebra_simps)
  then have "map (?g (Suc k) m) [0..<Suc k] =
      map (?g k (drop_bit 5 m)) [0..<k] @ [ucast (m AND 0x1f)]"
    by simp
  then have "pack (map (?g (Suc k) m) [0..<Suc k]) =
      push_bit 5 (take_bit (5 * k) (drop_bit 5 m)) XOR ucast (ucast (m AND 0x1f) :: byte)"
    by (simp only: pack_simps Suc.IH)
  also have "ucast (ucast (m AND 0x1f) :: byte) = take_bit 5 m"
    unfolding mask5 take_bit_eq_mask [symmetric] by (auto simp: bit_eq_iff bit_simps)
  also have "push_bit 5 (take_bit (5 * k) (drop_bit 5 m)) XOR take_bit 5 m = take_bit (5 * Suc k) m"
    by (auto simp: bit_eq_iff bit_simps)
  finally show ?case .
qed

lemma CreateChecksum_pack:
  "pack (CreateChecksum prefix payload) =
    PolyMod (ExpandPrefix prefix @ payload @ replicate 8 0)"
proof -
  let ?m = "PolyMod (ExpandPrefix prefix @ payload @ replicate 8 0)"
  have "take_bit 40 (rounds 1 ds) = rounds 1 ds" for ds
    by (rule rounds_40) simp
  then have "take_bit 40 ?m = ?m"
    unfolding PolyMod_def take_bit_xor by (simp del: foldl_append)
  moreover have "pack (CreateChecksum prefix payload) = take_bit 40 ?m"
    using pack_groups [of 8 ?m] by (simp add: CreateChecksum_def Cat_def Let_def del: upt_rec_numeral)
  ultimately show ?thesis by simp
qed

lemma CreateChecksum_sym5: "\<forall>d \<in> set (CreateChecksum prefix payload). sym5 d"
proof -
  have "sym5 (ucast (x AND 0x1f))" for x :: "64 word"
    unfolding sym5_bit mask5 take_bit_eq_mask [symmetric] by (simp add: bit_eq_iff bit_simps)
  then show ?thesis
    unfolding CreateChecksum_def Let_def by (simp del: upt_rec_numeral)
qed

lemma length_CreateChecksum [simp]: "length (CreateChecksum prefix payload) = 8"
  by (simp add: CreateChecksum_def Let_def)

lemma CreateChecksum_verifies:
  "VerifyChecksum prefix (payload @ CreateChecksum prefix payload)"
proof -
  define s where "s = rounds 1 (ExpandPrefix prefix @ payload)"
  let ?cs = "CreateChecksum prefix payload"
  have "rounds 0 ?cs = pack ?cs"
    by (rule rounds_pack) (use CreateChecksum_sym5 in auto)
  also have "\<dots> = rounds s (replicate 8 0) XOR 1"
    unfolding CreateChecksum_pack PolyMod_def s_def by simp
  finally have cs: "rounds 0 ?cs = rounds s (replicate 8 0) XOR 1" .
  have "rounds s ?cs = rounds 0 ?cs XOR (rounds 0 (replicate 8 0) XOR (poly_shift ^^ 8) s)"
    using rounds_split [of s ?cs] by (simp add: rounds_zeros)
  also have "rounds 0 (replicate 8 0) XOR (poly_shift ^^ 8) s = rounds s (replicate 8 0)"
    using rounds_split [of s "replicate 8 0"] by (simp only: length_replicate)
  finally have "rounds s ?cs = 1"
    unfolding cs by (simp only: xor_pair_cancel)
  then show ?thesis
    by (simp add: VerifyChecksum_def PolyMod_def Cat_def s_def)
qed

text \<open>
  Changing up to eight consecutive symbols of a message always changes \<open>PolyMod\<close>: the
  difference is a non-zero packed word, and the remaining rounds are injective.
\<close>

lemma xor_swap:
  fixes a b t :: "64 word"
  shows "b XOR t = (a XOR t) XOR (a XOR b)"
  by (auto simp: bit_eq_iff bit_simps)

lemma PolyMod_burst:
  assumes "length e1 = length e2" "length e1 \<le> 8" "e1 \<noteq> e2"
    "\<forall>d \<in> set e1. sym5 d" "\<forall>d \<in> set e2. sym5 d"
  shows "PolyMod (xs @ e1 @ ys) \<noteq> PolyMod (xs @ e2 @ ys)"
proof
  assume "PolyMod (xs @ e1 @ ys) = PolyMod (xs @ e2 @ ys)"
  then have eq: "rounds (rounds (rounds 1 xs) e1) ys = rounds (rounds (rounds 1 xs) e2) ys"
    by (simp add: PolyMod_def)
  let ?s = "rounds 1 xs" and ?d = "pack e1 XOR pack e2"
  have e2: "rounds ?s e2 = rounds ?s e1 XOR ?d"
  proof -
    have "rounds 0 e1 = pack e1" "rounds 0 e2 = pack e2"
      using assms by (auto intro!: rounds_pack)
    then show ?thesis
      unfolding rounds_split [of ?s e1] rounds_split [of ?s e2] assms(1)
      by (simp only:) (rule xor_swap)
  qed
  have "rounds (rounds ?s e1) ys = rounds (rounds ?s e1) ys XOR (poly_shift ^^ length ys) ?d"
    using eq unfolding e2 rounds_xor .
  then have "(poly_shift ^^ length ys) ?d = 0"
    by simp
  moreover have "take_bit 40 ?d = ?d"
    using assms by (simp add: take_bit_xor pack_40)
  moreover have "?d \<noteq> 0"
    using assms pack_inj [of e1 e2] by auto
  ultimately show False
    using poly_shift_pow_nonzero by blast
qed

end
