(* ===== verification/CashAddr_Bits.thy ===== *)
theory CashAddr_Bits
  imports CashAddr
begin

text \<open>
  \<open>convertBits\<close> of \<open>cashaddr.go\<close> against its reference meaning: a list of \<open>n\<close>-bit values is the
  concatenation of its bits, most significant first, and \<open>convertBits\<close> cuts that bit string
  into groups of another width.  The masked accumulator of the code only ever needs the bits that
  have not been emitted yet, which is the loop invariant below.
\<close>

section \<open>Bit strings of machine words\<close>

definition bits_msb :: "nat \<Rightarrow> 'a::len word \<Rightarrow> bool list" where
  "bits_msb n w = map (bit w) (rev [0..<n])"

definition bitstring :: "nat \<Rightarrow> 'a::len word list \<Rightarrow> bool list" where
  "bitstring n ws = concat (map (bits_msb n) ws)"

definition fits :: "nat \<Rightarrow> 'a::len word \<Rightarrow> bool" where
  "fits n w \<longleftrightarrow> unat w < 2 ^ n"

lemma length_bits_msb [simp, bits_simps]: "length (bits_msb n w) = n"
  by (simp add: bits_msb_def)

lemma bits_msb_0 [simp, bits_simps]: "bits_msb 0 w = []"
  by (simp add: bits_msb_def)

lemma bitstring_simps [simp, bits_simps]:
  "bitstring n [] = []"
  "bitstring n (w # ws) = bits_msb n w @ bitstring n ws"
  "bitstring n (us @ vs) = bitstring n us @ bitstring n vs"
  by (simp_all add: bitstring_def)

lemma length_bitstring [simp, bits_simps]: "length (bitstring n ws) = n * length ws"
  by (induction ws) simp_all

lemma bits_msb_cong: "(\<And>i. i < n \<Longrightarrow> bit v i = bit w i) \<Longrightarrow> bits_msb n v = bits_msb n w"
  by (simp add: bits_msb_def)

lemma bits_msb_append: "bits_msb (m + n) w = bits_msb m (drop_bit n w) @ bits_msb n w"
proof -
  have "[0..<m + n] = [0..<n] @ map (\<lambda>i. i + n) [0..<m]"
    unfolding map_add_upt using upt_add_eq_append [of 0 n m] by (simp only: add.commute le0 simp_thms)
  then have "rev [0..<m + n] = map (\<lambda>i. i + n) (rev [0..<m]) @ rev [0..<n]"
    by (simp add: rev_map)
  then show ?thesis
    by (simp add: bits_msb_def bit_drop_bit_eq comp_def add.commute)
qed

lemma bits_msb_eq_iff: "bits_msb n v = bits_msb n w \<longleftrightarrow> (\<forall>i<n. bit v i = bit w i)"
  by (auto simp: bits_msb_def)

lemma bits_msb_inj:
  assumes "fits n v" "fits n w" "bits_msb n v = bits_msb n w"
  shows "v = w"
proof -
  have "take_bit n v = take_bit n w"
    using assms(3) by (auto simp: bit_eq_iff bit_take_bit_iff bits_msb_eq_iff)
  then show ?thesis
    using assms(1,2) by (metis fits_def take_bit_self_iff)
qed

lemma bitstring_inj:
  assumes "length us = length vs" "\<forall>w \<in> set us. fits n w" "\<forall>w \<in> set vs. fits n w"
    "bitstring n us = bitstring n vs"
  shows "us = vs"
  using assms by (induction us vs rule: list_induct2) (auto dest: bits_msb_inj)

lemma mask_numeral: "(2 ^ n - 1 :: 'a::len word) = mask n"
  by (simp add: mask_eq_exp_minus_1)

lemma fits_take_bit: "fits n (take_bit n w)"
  by (simp add: fits_def flip: take_bit_self_iff)

lemma fits_byte [simp]: "fits 8 (b :: byte)"
  using unsigned_less [of b] by (simp add: fits_def)

lemma fits_ucast [simp]: "fits n (ucast (b :: byte) :: 64 word) \<longleftrightarrow> fits n b"
  by (simp add: fits_def)

lemma bits_msb_ucast [simp]: "n \<le> 8 \<Longrightarrow> bits_msb n (ucast (b :: byte) :: 64 word) = bits_msb n b"
  by (rule bits_msb_cong) (simp add: bit_simps)

lemma bits_msb_ucast_down [simp]: "n \<le> 8 \<Longrightarrow> bits_msb n (ucast (w :: 64 word) :: byte) = bits_msb n w"
  by (rule bits_msb_cong) (simp add: bit_simps)

lemma fits_ucast_down: "n \<le> 8 \<Longrightarrow> fits n (w :: 64 word) \<Longrightarrow> fits n (ucast w :: byte)"
  unfolding fits_def take_bit_self_iff [symmetric]
  by (simp add: bit_eq_iff bit_simps)

lemma bitstring_map_ucast:
  "n \<le> 8 \<Longrightarrow> bitstring n (map ucast (ws :: byte list) :: 64 word list) = bitstring n ws"
  by (induction ws) simp_all

lemma bitstring_map_ucast_down:
  "n \<le> 8 \<Longrightarrow> bitstring n (map ucast (ws :: 64 word list) :: byte list) = bitstring n ws"
  by (induction ws) simp_all

section \<open>The loops of convertBits\<close>

text \<open>Taking in a value: the pending bits are followed by the bits of the value.\<close>

lemma bits_msb_shift_in:
  fixes acc v :: "64 word"
  assumes "fits from v" "b + from \<le> m" "m \<le> 64"
  shows "bits_msb (b + from) ((push_bit from acc OR v) AND mask m) = bits_msb b acc @ bits_msb from v"
proof -
  have "\<not> bit v i" if "from \<le> i" for i
    using assms(1) that unfolding fits_def take_bit_self_iff [symmetric]
    by (metis bit_take_bit_iff not_less)
  then have "bits_msb b (drop_bit from ((push_bit from acc OR v) AND mask m)) = bits_msb b acc"
    using assms(2,3) by (intro bits_msb_cong) (simp add: bit_simps)
  moreover have "bits_msb from ((push_bit from acc OR v) AND mask m) = bits_msb from v"
    using assms(2,3) by (intro bits_msb_cong) (simp add: bit_simps)
  ultimately show ?thesis
    by (simp add: bits_msb_append)
qed

text \<open>Emitting groups: they are the leading pending bits.\<close>

lemma convert_inner_bits:
  assumes "0 < to"
  shows "\<exists>ds. convert_inner to acc bits ret = (bits mod to, ret @ ds) \<and>
    bits_msb bits acc = bitstring to ds @ bits_msb (bits mod to) acc \<and> (\<forall>d \<in> set ds. fits to d)"
  using assms
proof (induction to acc bits ret rule: convert_inner.induct)
  case (1 to acc bits ret)
  show ?case
  proof (cases "to \<le> bits")
    case True
    let ?d = "drop_bit (bits - to) acc AND mask to"
    obtain ds where ds: "convert_inner to acc (bits - to) (ret @ [?d]) =
        ((bits - to) mod to, ret @ ?d # ds)"
      "bits_msb (bits - to) acc = bitstring to ds @ bits_msb ((bits - to) mod to) acc"
      "\<forall>d \<in> set ds. fits to d"
      using "1.IH" "1.prems" True by (auto simp: mask_numeral)
    have m: "(bits - to) mod to = bits mod to"
      using True by (simp add: le_mod_geq)
    have "bits_msb bits acc = bits_msb to (drop_bit (bits - to) acc) @ bits_msb (bits - to) acc"
      using bits_msb_append [of to "bits - to" acc] True by simp
    moreover have "bits_msb to ?d = bits_msb to (drop_bit (bits - to) acc)"
      by (rule bits_msb_cong) (auto simp: bit_simps dest: bit_imp_le_length)
    moreover have "fits to ?d"
      unfolding take_bit_eq_mask [symmetric] by (rule fits_take_bit)
    ultimately show ?thesis
      using True "1.prems" ds m
      by (intro exI [of _ "?d # ds"]) (simp add: convert_inner.simps [of to acc bits] mask_numeral)
  next
    case False
    then show ?thesis
      by (intro exI [of _ "[]"]) (simp add: convert_inner.simps [of to acc bits])
  qed
qed

lemma convert_loop_bits:
  assumes "0 < to" "from + to \<le> 65" "bits < to" "\<forall>v \<in> set vs. fits from v"
  shows "\<exists>acc' bits' ds. convert_loop from to acc bits ret vs = (acc', bits', ret @ ds) \<and> bits' < to \<and>
    bits_msb bits acc @ bitstring from vs = bitstring to ds @ bits_msb bits' acc' \<and>
    (\<forall>d \<in> set ds. fits to d)"
  using assms(3,4)
proof (induction vs arbitrary: acc bits ret)
  case Nil
  then show ?case by (intro exI [of _ acc] exI [of _ bits] exI [of _ "[]"]) simp
next
  case (Cons v vs)
  let ?acc = "(push_bit from acc OR v) AND mask (from + to - 1)"
  obtain ds where ds: "convert_inner to ?acc (bits + from) ret = ((bits + from) mod to, ret @ ds)"
    "bits_msb (bits + from) ?acc = bitstring to ds @ bits_msb ((bits + from) mod to) ?acc"
    "\<forall>d \<in> set ds. fits to d"
    using convert_inner_bits [OF assms(1)] by blast
  have shift: "bits_msb (bits + from) ?acc = bits_msb bits acc @ bits_msb from v"
    using Cons.prems assms(2) by (intro bits_msb_shift_in) auto
  have "(bits + from) mod to < to" "\<forall>v \<in> set vs. fits from v"
    using assms(1) Cons.prems(2) by simp_all
  from Cons.IH [OF this, of ?acc "ret @ ds"] obtain acc' bits' es where IH:
    "convert_loop from to ?acc ((bits + from) mod to) (ret @ ds) vs = (acc', bits', (ret @ ds) @ es)"
    "bits' < to"
    "bits_msb ((bits + from) mod to) ?acc @ bitstring from vs = bitstring to es @ bits_msb bits' acc'"
    "\<forall>d \<in> set es. fits to d"
    by blast
  have "bits_msb bits acc @ bitstring from (v # vs) = bits_msb (bits + from) ?acc @ bitstring from vs"
    unfolding shift by simp
  also have "\<dots> = bitstring to ds @ bits_msb ((bits + from) mod to) ?acc @ bitstring from vs"
    unfolding ds(2) by simp
  also have "\<dots> = bitstring to (ds @ es) @ bits_msb bits' acc'"
    unfolding IH(3) by simp
  finally have split: "bits_msb bits acc @ bitstring from (v # vs) =
      bitstring to (ds @ es) @ bits_msb bits' acc'" .
  have "convert_loop from to acc bits ret (v # vs) = (acc', bits', ret @ ds @ es)"
    unfolding convert_loop.simps mask_numeral Let_def ds(1) prod.case IH(1) by simp
  moreover have "\<forall>d \<in> set (ds @ es). fits to d"
    using IH(4) ds(3) by auto
  ultimately show ?case
    using split IH(2) by blast
qed

section \<open>Regrouping\<close>

lemma bits_msb_pad:
  fixes acc :: "64 word"
  assumes "b \<le> n" "n \<le> 64"
  shows "bits_msb n (push_bit (n - b) acc AND mask n) = bits_msb b acc @ replicate (n - b) False"
proof -
  let ?w = "push_bit (n - b) acc AND mask n"
  have "bits_msb b (drop_bit (n - b) ?w) = bits_msb b acc"
    using assms by (intro bits_msb_cong) (auto simp: bit_simps)
  moreover have "bits_msb (n - b) ?w = replicate (n - b) False"
    by (rule nth_equalityI) (auto simp: bits_msb_def rev_nth bit_simps)
  ultimately show ?thesis
    using bits_msb_append [of b "n - b" ?w] assms by simp
qed

lemma bits_msb_0_iff:
  assumes "fits n w"
  shows "w = 0 \<longleftrightarrow> bits_msb n w = replicate n False"
proof -
  have "bits_msb n (0 :: 'a word) = replicate n False"
    by (rule nth_equalityI) (simp_all add: bits_msb_def)
  moreover have "fits n (0 :: 'a word)" by (simp add: fits_def)
  ultimately show ?thesis
    using bits_msb_inj [OF assms] by metis
qed

text \<open>
  The two modes of \<open>convertBits\<close>.  With padding the output is the input's bit string filled up
  with zeros to a whole group; without padding the input is accepted exactly when what remains
  after the last whole group is shorter than an input group and zero.
\<close>

lemma convertBits_pad:
  assumes "0 < to" "to \<le> 8" "from \<le> 8" "\<forall>d \<in> set dat. fits from d"
  shows "\<exists>out k. convertBits dat from to True = Inr out \<and> k < to \<and> (\<forall>d \<in> set out. fits to d) \<and>
    bitstring to out = bitstring from dat @ replicate k False"
proof -
  obtain acc bits ds where loop: "convert_loop from to 0 0 [] (map ucast dat) = (acc, bits, ds)"
    "bits < to" "bitstring from dat = bitstring to ds @ bits_msb bits acc" "\<forall>d \<in> set ds. fits to d"
    using convert_loop_bits [of to "from" 0 "map ucast dat" 0 "[]"] assms
    by (auto simp: bitstring_map_ucast)
  let ?last = "push_bit (to - bits) acc AND mask to"
  show ?thesis
  proof (cases "bits = 0")
    case True
    then show ?thesis
      using loop assms
      by (intro exI [of _ "map ucast ds"] exI [of _ 0])
        (auto simp: convertBits_def bitstring_map_ucast_down fits_ucast_down)
  next
    case False
    have "fits to ?last"
      unfolding take_bit_eq_mask [symmetric] by (rule fits_take_bit)
    then show ?thesis
      using False loop assms bits_msb_pad [of bits to acc]
      by (intro exI [of _ "map ucast (ds @ [?last])"] exI [of _ "to - bits"])
        (auto simp: convertBits_def mask_numeral bitstring_map_ucast_down fits_ucast_down)
  qed
qed

lemma convertBits_nopad:
  assumes "0 < to" "to \<le> 8" "from \<le> 8" "\<forall>d \<in> set dat. fits from d"
  shows "\<exists>out rest. (\<forall>d \<in> set out. fits to d) \<and> length rest < to \<and>
    bitstring from dat = bitstring to out @ rest \<and>
    convertBits dat from to False =
      (if length rest < from \<and> rest = replicate (length rest) False then Inr out
       else Inl (Err (ErrNew ''encoding padding error'')))"
proof -
  obtain acc bits ds where loop: "convert_loop from to 0 0 [] (map ucast dat) = (acc, bits, ds)"
    "bits < to" "bitstring from dat = bitstring to ds @ bits_msb bits acc" "\<forall>d \<in> set ds. fits to d"
    using convert_loop_bits [of to "from" 0 "map ucast dat" 0 "[]"] assms
    by (auto simp: bitstring_map_ucast)
  let ?last = "push_bit (to - bits) acc AND mask to"
  have "fits to ?last"
    unfolding take_bit_eq_mask [symmetric] by (rule fits_take_bit)
  then have "?last = 0 \<longleftrightarrow> bits_msb bits acc @ replicate (to - bits) False = replicate to False"
    using bits_msb_0_iff [of to ?last] bits_msb_pad [of bits to acc] loop(2) assms(2) by simp
  also have "replicate to False = replicate bits False @ replicate (to - bits) False"
    using loop(2) by (simp flip: replicate_add)
  finally have "?last = 0 \<longleftrightarrow> bits_msb bits acc = replicate bits False"
    by simp
  then show ?thesis
    using loop assms
    by (intro exI [of _ "map ucast ds"] exI [of _ "bits_msb bits acc"])
      (auto simp: convertBits_def mask_numeral bitstring_map_ucast_down fits_ucast_down)
qed

lemma bitstring_split_unique:
  assumes "bitstring n us @ r = bitstring n vs @ s" "length r < n" "length s < n"
    "\<forall>w \<in> set us. fits n w" "\<forall>w \<in> set vs. fits n w"
  shows "us = vs \<and> r = s"
proof -
  have "n * length us + length r = n * length vs + length s"
    using arg_cong [OF assms(1), of length] by simp
  then have "length us = length vs"
    using assms(2,3) by (metis div_mult_self4 div_less add_0_right less_nat_zero_code mult.commute
        add.right_neutral div_mult_self3)
  then have "bitstring n us = bitstring n vs \<and> r = s"
    using assms(1) by (simp add: append_eq_append_conv)
  then show ?thesis
    using bitstring_inj [OF \<open>length us = length vs\<close> assms(4,5)] by simp
qed

lemma convertBits_roundtrip:
  "\<exists>mid. convertBits dat 8 5 True = Inr mid \<and> (\<forall>d \<in> set mid. fits 5 d) \<and>
    convertBits mid 5 8 False = Inr dat"
proof -
  obtain mid k where mid: "convertBits dat 8 5 True = Inr mid" "k < 5" "\<forall>d \<in> set mid. fits 5 d"
    "bitstring 5 mid = bitstring 8 dat @ replicate k False"
    using convertBits_pad [of 5 8 dat] by auto
  obtain out rest where out: "\<forall>d \<in> set out. fits 8 d" "length rest < 8"
    "bitstring 5 mid = bitstring 8 out @ rest"
    "convertBits mid 5 8 False = (if length rest < 5 \<and> rest = replicate (length rest) False
      then Inr out else Inl (Err (ErrNew ''encoding padding error'')))"
    using convertBits_nopad [of 8 5 mid] mid(3) by auto
  have "out = dat \<and> rest = replicate k False"
    using mid out by (intro bitstring_split_unique [of 8]) auto
  then show ?thesis
    using mid out by auto
qed

end
