(* ===== verification/CashAddr_Codec.thy ===== *)
theory CashAddr_Codec
  imports CashAddr_Checksum CashAddr_Bits
begin

text \<open>
  The address codec of \<open>cashaddr.go\<close> end to end: the character set and its inverse, the sanity
  scan of \<open>DecodeCashAddress\<close>, the version byte, and from these the round trip of encoding and
  decoding an address, the detection of corrupted addresses, and the inputs on which decoding
  panics.
\<close>

section \<open>Characters\<close>

lemma sym5_fits: "sym5 d \<longleftrightarrow> fits 5 d"
  by (simp add: sym5_def fits_def)

definition lower_letter :: "char \<Rightarrow> bool" where
  "lower_letter ch \<longleftrightarrow> of_char (CHR ''a'') \<le> (of_char ch :: nat) \<and> of_char ch \<le> (of_char (CHR ''z'') :: nat)"

definition digit_char :: "char \<Rightarrow> bool" where
  "digit_char ch \<longleftrightarrow> of_char (CHR ''0'') \<le> (of_char ch :: nat) \<and> of_char ch \<le> (of_char (CHR ''9'') :: nat)"

text \<open>The characters of a list of five-bit symbols.\<close>

abbreviation text_of :: "data \<Rightarrow> string" where
  "text_of ds \<equiv> map (\<lambda>d. CHARSET ! unat d) ds"

lemma charset_properties:
  "\<forall>i \<in> set [0..<32]. (lower_letter (CHARSET ! i) \<or> digit_char (CHARSET ! i)) \<and>
     of_char (CHARSET ! i) \<le> (127::nat) \<and> CHARSET_REV ! of_char (CHARSET ! i) = int i"
  by code_simp

lemma length_CHARSET: "length CHARSET = 32"
  by (simp add: CHARSET_def)

lemma charset_at_sym5:
  assumes "sym5 d"
  shows "charset_at d = Inr (CHARSET ! unat d)"
  using assms by (simp add: charset_at_def sym5_def length_CHARSET)

lemma decode_charset:
  assumes "sym5 d"
  shows "decode_char (CHARSET ! unat d) = Inr d"
proof -
  have "unat d \<in> set [0..<32]" using assms by (simp add: sym5_def del: upt_rec_numeral)
  then have "of_char (CHARSET ! unat d) \<le> (127::nat)"
    "CHARSET_REV ! of_char (CHARSET ! unat d) = int (unat d)"
    using charset_properties by blast+
  moreover have "int (unat d) \<noteq> -1" by linarith
  ultimately show ?thesis
    by (simp add: decode_char_def)
qed

lemma encode_chars:
  assumes "\<forall>d \<in> set ds. sym5 d"
  shows "rmapM charset_at ds = Inr (text_of ds)"
    and "rmapM decode_char (text_of ds) = Inr ds"
    and "\<forall>ch \<in> set (text_of ds). lower_letter ch \<or> digit_char ch"
proof -
  show "rmapM charset_at ds = Inr (text_of ds)"
    using assms by (intro rmapM_total) (simp add: charset_at_sym5)
  show "rmapM decode_char (text_of ds) = Inr ds"
    using assms by (induction ds) (simp_all add: decode_charset)
  have "lower_letter (CHARSET ! unat d) \<or> digit_char (CHARSET ! unat d)" if "d \<in> set ds" for d
  proof -
    have "unat d \<in> set [0..<32]" using assms that by (simp add: sym5_def del: upt_rec_numeral)
    then show ?thesis using charset_properties by blast
  qed
  then show "\<forall>ch \<in> set (text_of ds). lower_letter ch \<or> digit_char ch"
    by simp
qed

lemma charset_rev_range:
  "\<forall>c \<in> set [0..<128]. CHARSET_REV ! c = -1 \<or> 0 \<le> CHARSET_REV ! c \<and> CHARSET_REV ! c < 32"
  by code_simp

lemma decode_char_sym5:
  assumes "decode_char ch = Inr d"
  shows "sym5 d"
proof -
  have c: "of_char ch < (128::nat)" "CHARSET_REV ! of_char ch \<noteq> -1"
    "d = word_of_int (CHARSET_REV ! of_char ch)"
    using assms by (auto simp: decode_char_def Let_def split: if_splits)
  from c(1) have "of_char ch \<in> set [0..<128]"
    by (simp del: upt_rec_numeral)
  from bspec [OF charset_rev_range this] c(2)
  have "0 \<le> CHARSET_REV ! of_char ch" "CHARSET_REV ! of_char ch < 32"
    by auto
  then have "unat (word_of_int (CHARSET_REV ! of_char ch) :: byte) < 32"
    by (simp add: unsigned_of_int take_bit_int_eq_self unat_eq_nat_uint)
  then show ?thesis
    by (simp add: sym5_def c(3))
qed

lemma decode_chars_sym5: "rmapM decode_char s = Inr ds \<Longrightarrow> \<forall>d \<in> set ds. sym5 d"
  by (induction s arbitrary: ds) (auto dest: decode_char_sym5)

section \<open>The sanity scan\<close>

lemma scan_prefix:
  assumes "\<forall>ch \<in> set p. lower_letter ch"
  shows "decode_scan i lower upper ps (p @ rest) =
    decode_scan (i + length p) (lower \<or> p \<noteq> []) upper ps rest"
  using assms by (induction p arbitrary: i lower) (auto simp: lower_letter_def Let_def)

lemma scan_body:
  assumes "\<forall>ch \<in> set s. lower_letter ch \<or> digit_char ch" "0 < ps"
  shows "\<exists>lower'. decode_scan i lower upper ps s = Inr (lower', upper, ps)"
  using assms(1)
proof (induction s arbitrary: i lower)
  case Nil
  then show ?case by simp
next
  case (Cons ch s)
  then have "\<exists>l. decode_scan (Suc i) lower'' upper ps s = Inr (l, upper, ps)" for lower''
    by simp
  with Cons.prems assms(2) show ?case
    by (auto simp: lower_letter_def digit_char_def Let_def)
qed

lemma scan_address:
  assumes "p \<noteq> []" "\<forall>ch \<in> set p. lower_letter ch" "\<forall>ch \<in> set s. lower_letter ch \<or> digit_char ch"
  shows "\<exists>lower. decode_scan 0 False False 0 (p @ '':'' @ s) = Inr (lower, False, length p)"
proof -
  have "decode_scan 0 False False 0 (p @ '':'' @ s) = decode_scan (length p) True False 0 ('':'' @ s)"
    using scan_prefix [OF assms(2), of 0 False False 0 "'':'' @ s"] assms(1) by simp
  also have "\<dots> = decode_scan (Suc (length p)) True False (length p) s"
    using assms(1) by (simp add: Let_def)
  finally show ?thesis
    using scan_body [OF assms(3), of "length p"] assms(1) by simp
qed

lemma LowerCase_lower_letter:
  assumes "lower_letter ch"
  shows "char_at (LowerCase (byte_of ch)) = ch"
proof -
  have "of_char ch div 2 ^ 5 = (3::nat)"
    using assms unfolding lower_letter_def by (simp, arith)
  then have "bit (unat (byte_of ch)) 5"
    by (simp add: bit_iff_odd)
  then have "bit (byte_of ch) 5"
    by (simp only: bit_unsigned_iff)
  then have "byte_of ch OR 2 ^ 5 = byte_of ch"
    by (intro bit_eqI) (metis bit_exp_iff bit_or_iff)
  then show ?thesis
    by (simp add: LowerCase_def)
qed

lemma LowerCase_prefix:
  "\<forall>ch \<in> set p. lower_letter ch \<Longrightarrow> map (\<lambda>ch. char_at (LowerCase (byte_of ch))) p = p"
  by (simp add: map_idI LowerCase_lower_letter)


section \<open>Encoding and decoding\<close>

lemma Encode_ok:
  assumes "\<forall>d \<in> set payload. sym5 d"
  shows "Encode p payload =
    Inr (text_of (payload @ CreateChecksum p payload))"
proof -
  have "\<forall>d \<in> set (payload @ CreateChecksum p payload). sym5 d"
    using assms CreateChecksum_sym5 by auto
  then show ?thesis
    unfolding Encode_def Cat_def Let_def by (rule encode_chars(1))
qed

lemma DecodeCashAddress_text:
  assumes "p \<noteq> []" "\<forall>ch \<in> set p. lower_letter ch" "\<forall>d \<in> set vs. sym5 d"
  shows "DecodeCashAddress (p @ '':'' @ text_of vs) =
    (if \<not> VerifyChecksum p vs then Inl (Err ErrChecksumMismatch)
     else if length vs < 8 then Inl (Panic ''slice bounds out of range'')
     else Inr (p, take (length vs - 8) vs))"
proof -
  let ?s = "text_of vs"
  obtain lower where scan: "decode_scan 0 False False 0 (p @ '':'' @ ?s) = Inr (lower, False, length p)"
    using scan_address [OF assms(1,2) encode_chars(3) [OF assms(3)]] by blast
  show ?thesis
    unfolding DecodeCashAddress_def scan
    using assms(1) by (simp add: LowerCase_prefix [OF assms(2)] encode_chars(2) [OF assms(3)])
qed

text \<open>Decoding inverts encoding, for any payload of five-bit symbols.\<close>

lemma Decode_Encode:
  assumes "p \<noteq> []" "\<forall>ch \<in> set p. lower_letter ch" "\<forall>d \<in> set payload. sym5 d"
  shows "\<exists>text. Encode p payload = Inr text \<and> DecodeCashAddress (p @ '':'' @ text) = Inr (p, payload)"
proof -
  let ?vs = "payload @ CreateChecksum p payload"
  have "\<forall>d \<in> set ?vs. sym5 d"
    using assms CreateChecksum_sym5 by auto
  then have "DecodeCashAddress (p @ '':'' @ text_of ?vs) = Inr (p, payload)"
    unfolding DecodeCashAddress_text [OF assms(1,2) \<open>\<forall>d \<in> set ?vs. sym5 d\<close>]
    using CreateChecksum_verifies by simp
  then show ?thesis
    using Encode_ok [OF assms(3)] by blast
qed

text \<open>
  The text form of a 20 byte hash under any version byte: 34 symbols of payload and 8 of checksum.
  \<open>CheckDecodeCashAddress\<close> returns \<open>P2SH\<close> for version byte 8 and \<open>P2PKH\<close> for every other one.
\<close>

definition decoded_type :: "byte \<Rightarrow> AddressType" where
  "decoded_type v = (if v = 8 then P2SH else P2PKH)"

lemma colon_not_alnum: "\<not> lower_letter (CHR '':'')" "\<not> digit_char (CHR '':'')"
  by (simp_all add: lower_letter_def digit_char_def)

lemma version_hash_text:
  assumes "p \<noteq> []" "\<forall>ch \<in> set p. lower_letter ch" "length h = 20"
  shows "\<exists>mid text. convertBits (v # h) 8 5 True = Inr mid \<and> Encode p mid = Inr text \<and>
    length text = 42 \<and> CHR '':'' \<notin> set text \<and> (\<forall>ch \<in> set text. lower_letter ch \<or> digit_char ch) \<and>
    CheckDecodeCashAddress (p @ '':'' @ text) = Inr (h, p, decoded_type v)"
proof -
  obtain mid where mid: "convertBits (v # h) 8 5 True = Inr mid"
    "\<forall>d \<in> set mid. fits 5 d" "convertBits mid 5 8 False = Inr (v # h)"
    using convertBits_roundtrip by blast
  let ?vs = "mid @ CreateChecksum p mid"
  let ?text = "text_of ?vs"
  have syms: "\<forall>d \<in> set mid. sym5 d" using mid(2) by (simp add: sym5_fits)
  then have enc: "Encode p mid = Inr ?text" by (rule Encode_ok)
  then have dec: "DecodeCashAddress (p @ '':'' @ ?text) = Inr (p, mid)"
    using Decode_Encode [OF assms(1,2) syms] by (metis sum.inject(2))
  have "\<forall>d \<in> set ?vs. sym5 d" using syms CreateChecksum_sym5 by auto
  note chars = encode_chars(3) [OF this]
  then have colon: "CHR '':'' \<notin> set ?text"
    using colon_not_alnum by blast
  obtain k where "k < 5" "bitstring 5 mid = bitstring 8 (v # h) @ replicate k False"
    using convertBits_pad [of 5 8 "v # h"] mid(1) by auto
  then have "length (bitstring 5 mid) = length (bitstring 8 (v # h) @ replicate k False)"
    by (simp only:)
  then have "5 * length mid = 168 + k"
    using assms(3) by (simp only: length_bitstring length_append length_replicate) simp
  then have "length ?text = 42"
    using \<open>k < 5\<close> by simp
  moreover have "CheckDecodeCashAddress (p @ '':'' @ ?text) = Inr (h, p, decoded_type v)"
    unfolding CheckDecodeCashAddress_def dec
    using mid(3) assms(3) by (simp add: decoded_type_def)
  ultimately show ?thesis
    using mid(1) enc colon chars by blast
qed

lemma packAddressData_20:
  assumes "length h = 20"
  shows "packAddressData P2PKH h = convertBits (0 # h) 8 5 True"
    "packAddressData P2SH h = convertBits (8 # h) 8 5 True"
  using assms by (simp_all add: packAddressData_def go_rem_def go_div_def)

lemma CheckDecode_CheckEncode:
  assumes "p \<noteq> []" "\<forall>ch \<in> set p. lower_letter ch" "length h = 20" "t = P2PKH \<or> t = P2SH"
  shows "\<exists>text. CheckEncodeCashAddress h p t = Inr text \<and> length text = 42 \<and>
    CHR '':'' \<notin> set text \<and> (\<forall>ch \<in> set text. lower_letter ch \<or> digit_char ch) \<and>
    CheckDecodeCashAddress (p @ '':'' @ text) = Inr (h, p, t)"
  using assms(4)
proof
  assume "t = P2PKH"
  with version_hash_text [OF assms(1-3), of 0] packAddressData_20(1) [OF assms(3)] show ?thesis
    by (auto simp: CheckEncodeCashAddress_def decoded_type_def)
next
  assume "t = P2SH"
  with version_hash_text [OF assms(1-3), of 8] packAddressData_20(2) [OF assms(3)] show ?thesis
    by (auto simp: CheckEncodeCashAddress_def decoded_type_def)
qed

text \<open>The three network prefixes are non-empty lower case words.\<close>

lemma Prefixes_lower:
  assumes "Prefixes cfg net = Some p"
  shows "p \<noteq> []" "\<forall>ch \<in> set p. lower_letter ch" "length p \<le> 11" "CHR '':'' \<notin> set p"
  using assms by (auto simp: Prefixes_def lower_letter_def split: if_splits)

lemma DecodeAddress_with_prefix:
  assumes "Prefixes cfg net = Some p"
  shows "DecodeAddress cfg (p @ '':'' @ text) net =
    (case CheckDecodeCashAddress (p @ '':'' @ text) of
       Inl (Err e) \<Rightarrow>
         if e = ErrChecksumMismatch then Inl (Err ErrChecksumMismatch)
         else Inl (Err (ErrNew ''decoded address is of unknown format''))
     | Inl f \<Rightarrow> Inl f
     | Inr (decoded, _, typ) \<Rightarrow>
         if length decoded = ripemd160_Size then
           (case typ of
              P2PKH \<Rightarrow> newCashAddressPubKeyHash cfg decoded net
            | P2SH \<Rightarrow> newCashAddressScriptHashFromHash cfg decoded net
            | OtherType _ \<Rightarrow> Inl (Err ErrUnknownAddressType))
         else Inl (Err (ErrNew ''decoded address is of unknown size'')))"
  using assms by (simp add: DecodeAddress_def)

lemma DecodeAddress_adds_prefix:
  assumes "Prefixes cfg net = Some p" "length p < length text" "CHR '':'' \<notin> set text"
  shows "DecodeAddress cfg text net = DecodeAddress cfg (p @ '':'' @ text) net"
proof -
  have "take (Suc (length p)) text \<noteq> p @ '':''"
    using assms(3) by (metis in_set_conv_decomp in_set_takeD)
  then show ?thesis
    using assms(1,2) by (simp add: DecodeAddress_def)
qed


section \<open>Properties\<close>

text \<open>
  C1: an address survives its text form.  For every network the package knows and every address
  of either type with a 20 byte hash, \<open>EncodeAddress\<close> succeeds, and \<open>DecodeAddress\<close> gives the
  same address back from the text, both bare and with the network prefix in front.
\<close>

theorem cashaddr_roundtrip:
  assumes "Prefixes cfg net = Some p" "length h = 20"
    "a = CashAddressPubKeyHash \<lparr>addr_hash = h, addr_prefix = p\<rparr> \<or>
     a = CashAddressScriptHash \<lparr>addr_hash = h, addr_prefix = p\<rparr>"
  shows "\<exists>text. EncodeAddress a = Inr text \<and> DecodeAddress cfg text net = Inr a \<and>
    DecodeAddress cfg (p @ '':'' @ text) net = Inr a"
proof -
  have *: "\<exists>text. CheckEncodeCashAddress h p t = Inr text \<and>
      DecodeAddress cfg text net = DecodeAddress cfg (p @ '':'' @ text) net \<and>
      CheckDecodeCashAddress (p @ '':'' @ text) = Inr (h, p, t)" if "t = P2PKH \<or> t = P2SH" for t
    using CheckDecode_CheckEncode [OF Prefixes_lower(1,2) [OF assms(1)] assms(2) that]
      DecodeAddress_adds_prefix [OF assms(1)] Prefixes_lower(3) [OF assms(1)] by fastforce
  from assms(3) show ?thesis
  proof
    assume a: "a = CashAddressPubKeyHash \<lparr>addr_hash = h, addr_prefix = p\<rparr>"
    from * [of P2PKH] show ?thesis
      using assms(1,2) DecodeAddress_with_prefix [OF assms(1)]
      by (auto simp: a encodeCashAddress_def ripemd160_Size_def newCashAddressPubKeyHash_def)
  next
    assume a: "a = CashAddressScriptHash \<lparr>addr_hash = h, addr_prefix = p\<rparr>"
    from * [of P2SH] show ?thesis
      using assms(1,2) DecodeAddress_with_prefix [OF assms(1)]
      by (auto simp: a encodeCashAddress_def ripemd160_Size_def newCashAddressScriptHashFromHash_def)
  qed
qed

definition btcd_names :: chaincfg where
  "btcd_names = \<lparr>MainNetParams_Name = ''mainnet'', TestNet3Params_Name = ''testnet3'',
     RegressionNetParams_Name = ''regtest''\<rparr>"

lemma Prefixes_mainnet: "Prefixes btcd_names ''mainnet'' = Some ''bitcoincash''"
  by (simp add: Prefixes_def btcd_names_def)

theorem cashaddr_roundtrip_witness:
  "\<exists>text. EncodeAddress (CashAddressScriptHash
      \<lparr>addr_hash = replicate 20 7, addr_prefix = ''bitcoincash''\<rparr>) = Inr text \<and>
    DecodeAddress btcd_names text ''mainnet'' = Inr (CashAddressScriptHash
      \<lparr>addr_hash = replicate 20 7, addr_prefix = ''bitcoincash''\<rparr>)"
  using cashaddr_roundtrip [OF Prefixes_mainnet, of "replicate 20 7"
    "CashAddressScriptHash \<lparr>addr_hash = replicate 20 7, addr_prefix = ''bitcoincash''\<rparr>"]
  by auto



text \<open>
  C22: \<open>convertBits\<close> only regroups bits.  Packing bytes into five-bit groups yields the same bit
  string followed by fewer than five zero bits, and unpacking without padding returns exactly the
  original bytes.
\<close>

theorem convertBits_regroup:
  "\<exists>mid k. convertBits dat 8 5 True = Inr mid \<and> k < 5 \<and>
    bitstring 5 mid = bitstring 8 dat @ replicate k False \<and> convertBits mid 5 8 False = Inr dat"
proof -
  obtain mid where mid: "convertBits dat 8 5 True = Inr mid" "convertBits mid 5 8 False = Inr dat"
    using convertBits_roundtrip by blast
  then show ?thesis
    using convertBits_pad [of 5 8 dat] by fastforce
qed

text \<open>
  C29: the panic of \<open>DecodeCashAddress\<close>.  On a lower case prefix and characters of the set, decoding
  panics with a slice out of range exactly when the checksum verifies although fewer than eight
  characters follow the separator.
\<close>

theorem DecodeCashAddress_panic_iff:
  assumes "p \<noteq> []" "\<forall>ch \<in> set p. lower_letter ch" "\<forall>d \<in> set vs. sym5 d"
  shows "is_panic (DecodeCashAddress (p @ '':'' @ text_of vs)) \<longleftrightarrow>
    VerifyChecksum p vs \<and> length vs < 8"
  unfolding DecodeCashAddress_text [OF assms] by simp

theorem DecodeCashAddress_panic_iff_witness:
  "is_panic (DecodeCashAddress (''adt'' @ '':'' @ text_of [10, 26, 26, 2, 31, 1, 26]))"
proof -
  have v: "VerifyChecksum ''adt'' [10, 26, 26, 2, 31, 1, 26]"
    by code_simp
  show ?thesis
    by (rule iffD2 [OF DecodeCashAddress_panic_iff])
      (simp_all add: lower_letter_def sym5_def v)
qed

text \<open>
  C30: the version byte is not validated.  Whatever version byte precedes a 20 byte hash in a well
  formed text, \<open>CheckDecodeCashAddress\<close> returns the hash, with type \<open>P2SH\<close> for version byte 8 and
  type \<open>P2PKH\<close> for each of the other 255 values.
\<close>

theorem version_byte_not_validated:
  assumes "Prefixes cfg net = Some p" "length h = 20"
  shows "\<exists>mid text. convertBits (v # h) 8 5 True = Inr mid \<and> Encode p mid = Inr text \<and>
    CheckDecodeCashAddress (p @ '':'' @ text) = Inr (h, p, if v = 8 then P2SH else P2PKH)"
  using version_hash_text [OF Prefixes_lower(1,2) [OF assms(1)] assms(2), of v]
  by (auto simp: decoded_type_def)

theorem version_byte_not_validated_witness:
  "\<exists>mid text. convertBits (255 # replicate 20 1) 8 5 True = Inr mid \<and>
    Encode ''bitcoincash'' mid = Inr text \<and>
    CheckDecodeCashAddress (''bitcoincash'' @ '':'' @ text) =
      Inr (replicate 20 1, ''bitcoincash'', P2PKH)"
  using version_byte_not_validated [OF Prefixes_mainnet, of "replicate 20 1" 255] by simp

text \<open>
  The script builder of \<open>txscript\<close>: an opcode is appended as it is, data of 2 to 75 bytes is
  preceded by its length.
\<close>

fun builder_bytes :: "builder_call \<Rightarrow> data" where
  "builder_bytes (AddOp b) = [b]"
| "builder_bytes (AddData d) = word_of_nat (length d) # d"

definition Script_ok :: "(builder_call list \<Rightarrow> data result) \<Rightarrow> bool" where
  "Script_ok Script \<longleftrightarrow>
    (\<forall>cs. (\<forall>d. AddData d \<in> set cs \<longrightarrow> 2 \<le> length d \<and> length d \<le> 75) \<longrightarrow>
       Script cs = Inr (concat (map builder_bytes cs)))"

definition bitcoin_opcodes :: txscript where
  "bitcoin_opcodes = \<lparr>OP_DUP = 0x76, OP_HASH160 = 0xa9, OP_EQUALVERIFY = 0x88,
     OP_CHECKSIG = 0xac, OP_EQUAL = 0x87\<rparr>"

text \<open>
  C26: payment scripts identify their address.  With the standard opcodes and a builder that
  appends opcodes and length-prefixed data, the script made for an address is the one from which
  \<open>ExtractPkScriptAddrs\<close> recovers that address.
\<close>

theorem script_roundtrip:
  assumes "Script_ok Script" "Prefixes cfg net = Some p" "length h = 20"
    "a = CashAddressPubKeyHash \<lparr>addr_hash = h, addr_prefix = p\<rparr> \<or>
     a = CashAddressScriptHash \<lparr>addr_hash = h, addr_prefix = p\<rparr>"
  shows "\<exists>s. cashPayToAddrScript bitcoin_opcodes Script (Some a) = Inr s \<and>
    ExtractPkScriptAddrs cfg s net = Inr a"
proof -
  have run: "Script cs = Inr (concat (map builder_bytes cs))"
    if "\<And>d. AddData d \<in> set cs \<Longrightarrow> d = h" for cs
  proof -
    have "\<forall>d. AddData d \<in> set cs \<longrightarrow> 2 \<le> length d \<and> length d \<le> 75"
      using that assms(3) by fastforce
    then show ?thesis
      using assms(1) unfolding Script_ok_def by blast
  qed
  have pkh: "Script [AddOp 0x76, AddOp 0xa9, AddData h, AddOp 0x88, AddOp 0xac] =
      Inr ([0x76, 0xa9, 0x14] @ h @ [0x88, 0xac])"
    by (subst run) (auto simp: assms(3))
  have sh: "Script [AddOp 0xa9, AddData h, AddOp 0x87] = Inr ([0xa9, 0x14] @ h @ [0x87])"
    by (subst run) (auto simp: assms(3))
  from assms(4) show ?thesis
  proof
    assume a: "a = CashAddressPubKeyHash \<lparr>addr_hash = h, addr_prefix = p\<rparr>"
    show ?thesis
      using assms(2,3) pkh
      by (simp add: a payToPubKeyHashScript_def bitcoin_opcodes_def ExtractPkScriptAddrs_def
          newCashAddressPubKeyHash_def ripemd160_Size_def nth_append)
  next
    assume a: "a = CashAddressScriptHash \<lparr>addr_hash = h, addr_prefix = p\<rparr>"
    show ?thesis
      using assms(2,3) sh
      by (simp add: a payToScriptHashScript_def bitcoin_opcodes_def ExtractPkScriptAddrs_def
          newCashAddressScriptHashFromHash_def ripemd160_Size_def nth_append)
  qed
qed

theorem script_roundtrip_witness:
  "\<exists>s. cashPayToAddrScript bitcoin_opcodes (\<lambda>cs. Inr (concat (map builder_bytes cs)))
      (Some (CashAddressScriptHash \<lparr>addr_hash = replicate 20 3, addr_prefix = ''bitcoincash''\<rparr>)) = Inr s \<and>
    ExtractPkScriptAddrs btcd_names s ''mainnet'' =
      Inr (CashAddressScriptHash \<lparr>addr_hash = replicate 20 3, addr_prefix = ''bitcoincash''\<rparr>)"
  by (rule script_roundtrip [OF _ Prefixes_mainnet, of _ "replicate 20 3"])
    (simp_all add: Script_ok_def)

end
