(* ===== verification/Pagination.thy ===== *)
theory Pagination
  imports GoStrings
begin

text \<open>
  \<open>V2/pkg/api/helpers.go\<close>: from the parameters \<open>from\<close> and \<open>to\<close> of a request to the window of the query.
  The clauses \<open>LIMIT n\<close> and \<open>OFFSET n\<close> are represented by their number, the empty clause by \<open>None\<close>.
\<close>

record Pagination =
  LimitClause :: "int option"
  OffsetClause :: "int option"
  FromPage :: int
  ToPage :: int

definition rangeErr :: "int \<Rightarrow> int \<Rightarrow> int \<Rightarrow> string" where
  "rangeErr fromPage toPage limit =
    [CHR 0x27] @ ''from'' @ [CHR 0x27] @ '' ('' @ Itoa fromPage @ '') and '' @ [CHR 0x27] @ ''to'' @ [CHR 0x27] @
    '' ('' @ Itoa toPage @ '') range should be less than or equal to '' @ Itoa limit"

definition negativeErr :: "int \<Rightarrow> int \<Rightarrow> string" where
  "negativeErr fromPage toPage =
    ''Unexpected state: '' @ [CHR 0x27] @ ''from'' @ [CHR 0x27] @ '' ('' @ Itoa fromPage @
    '') is expected to be less than '' @ [CHR 0x27] @ ''to'' @ [CHR 0x27] @ '' ('' @ Itoa toPage @ '')''"

text \<open>\<open>Atoi\<close> returns a value with its error, which is used for \<open>from\<close>.\<close>

definition TraditionalPagintion :: "string \<Rightarrow> string \<Rightarrow> int \<Rightarrow> int \<Rightarrow> Pagination result" where
  "TraditionalPagintion from to defaultLimit maxLimit =
    (let fromPage = fst (Atoi from);
         toPage = (case Atoi to of (t, None) \<Rightarrow> t | _ \<Rightarrow> i64 (fromPage + defaultLimit)) in
     if from \<noteq> [] \<and> to \<noteq> [] then
       (let diff = i64 (toPage - fromPage) in
        if diff > maxLimit then Inl (Err (ErrNew (rangeErr fromPage toPage maxLimit)))
        else if toPage = 0 \<and> fromPage = 0 then
          Inr \<lparr>LimitClause = Some defaultLimit, OffsetClause = Some 0, FromPage = 0, ToPage = defaultLimit\<rparr>
        else if diff \<le> 0 then Inl (Err (ErrNew (negativeErr fromPage toPage)))
        else Inr \<lparr>LimitClause = Some diff, OffsetClause = Some fromPage, FromPage = fromPage, ToPage = toPage\<rparr>)
     else if from \<noteq> [] then
       Inr \<lparr>LimitClause = Some defaultLimit, OffsetClause = Some fromPage, FromPage = fromPage,
         ToPage = i64 (fromPage + defaultLimit)\<rparr>
     else if to \<noteq> [] then
       (let diff = i64 (toPage - fromPage) in
        if diff > maxLimit then Inl (Err (ErrNew (rangeErr fromPage toPage maxLimit)))
        else let toPage = (if toPage = 0 then defaultLimit else toPage) in
          Inr \<lparr>LimitClause = Some toPage, OffsetClause = None, FromPage = fromPage, ToPage = toPage\<rparr>)
     else Inr \<lparr>LimitClause = Some defaultLimit, OffsetClause = None, FromPage = fromPage, ToPage = toPage\<rparr>)"

lemma Atoi_empty: "fst (Atoi []) = 0" "snd (Atoi []) \<noteq> None"
  by (simp_all add: Atoi_def ParseInt_def)

lemma Atoi_range: "in_i64 (fst (Atoi s))"
  unfolding Atoi_def ParseInt_def Let_def
  by (auto simp: in_i64_def split: prod.splits)

lemma i64_Atoi: "Atoi s = (n, e) \<Longrightarrow> i64 n = n"
  using Atoi_range [of s] by (simp add: i64_id)

lemma i64_sub_add: "in_i64 n \<Longrightarrow> i64 (i64 (a + n) - a) = n"
  by (simp add: i64_def in_i64_def mod_simps)

lemma pages_range:
  assumes "TraditionalPagintion from to defaultLimit maxLimit = Inr p" "in_i64 defaultLimit"
  shows "in_i64 (FromPage p)" "in_i64 (ToPage p)"
  using assms Atoi_range [of to] Atoi_range [of "from"] unfolding TraditionalPagintion_def Let_def
  by (auto simp: in_i64_def [of 0] split: prod.splits option.splits if_splits)

lemma window_queried:
  assumes "TraditionalPagintion from to defaultLimit maxLimit = Inr p" "0 < defaultLimit" "defaultLimit \<le> maxLimit"
    "maxLimit < 2 ^ 63"
  shows "\<exists>n. LimitClause p = Some n \<and> n = i64 (ToPage p - FromPage p) \<and> n \<le> maxLimit \<and>
    (from \<noteq> [] \<or> to = [] \<or> 0 \<le> fst (Atoi to) \<longrightarrow> 0 < n) \<and>
    FromPage p = (case OffsetClause p of None \<Rightarrow> 0 | Some m \<Rightarrow> m)"
proof -
  have d: "in_i64 defaultLimit" "i64 defaultLimit = defaultLimit" using assms(2-4) by (simp_all add: in_i64_def i64_id)
  note run = assms(1) [unfolded TraditionalPagintion_def Let_def]
  show ?thesis
  proof (cases "from = []"; cases "to = []")
    assume "from = []" "to = []"
    then show ?thesis using run d assms(2,3) Atoi_empty by (auto split: prod.splits option.splits)
  next
    assume "from = []" "to \<noteq> []"
    then show ?thesis using run d assms(2,3) Atoi_empty
      by (auto simp: i64_Atoi split: prod.splits option.splits if_splits)
  next
    assume "from \<noteq> []" "to = []"
    then show ?thesis using run d assms(2,3) i64_sub_add by (auto split: prod.splits option.splits)
  next
    assume "from \<noteq> []" "to \<noteq> []"
    then show ?thesis using run d assms(2,3) by (auto split: prod.splits option.splits if_splits)
  qed
qed

text \<open>
  C28: the window reported is the window queried.  When the pagination succeeds, the limit is the
  distance of the two pages, it does not exceed the maximum, and it is positive except for a
  negative \<open>to\<close> without \<open>from\<close>; the offset is the first page.
\<close>

theorem pagination_window:
  assumes "TraditionalPagintion from to defaultLimit maxLimit = Inr p" "0 < defaultLimit" "defaultLimit \<le> maxLimit"
    "maxLimit < 2 ^ 63"
  shows "\<exists>n. LimitClause p = Some n \<and> n = i64 (ToPage p - FromPage p) \<and> n \<le> maxLimit \<and>
    (from \<noteq> [] \<or> to = [] \<or> 0 \<le> fst (Atoi to) \<longrightarrow> 0 < n) \<and>
    FromPage p = (case OffsetClause p of None \<Rightarrow> 0 | Some m \<Rightarrow> m)"
  by (rule window_queried [OF assms])

theorem pagination_window_witness:
  "\<exists>p. TraditionalPagintion ''5'' ''7'' 10 50 = Inr p \<and> LimitClause p = Some 2 \<and> FromPage p = 5"
proof -
  have "Atoi ''5'' = (5, None)" "Atoi ''7'' = (7, None)"
    using ParseInt_digits [of "''5''"] ParseInt_digits [of "''7''"] by (simp_all add: Atoi_def digit_val_def)
  then have p: "TraditionalPagintion ''5'' ''7'' 10 50 =
      Inr \<lparr>LimitClause = Some 2, OffsetClause = Some 5, FromPage = 5, ToPage = 7\<rparr>" (is "_ = Inr ?p")
    by (simp add: TraditionalPagintion_def i64_id in_i64_def)
  from pagination_window [OF p] p show ?thesis by simp
qed

end
