(* ===== verification/Insight.thy ===== *)
theory Insight
  imports Indexer_Order CashAddr_Codec Pagination
begin

text \<open>
  The insight API (\<open>V2/pkg/api/insight\<close>): the answers assembled from the database, the middleware that
  fills the context of a request, and the handlers.  A request is a record of what the handlers read
  from it; an answer is the value that is marshalled, or an error with its status.
\<close>

section \<open>Types\<close>

text \<open>\<open>omitempty\<close> only concerns the text of the answer.  A \<open>float64\<close> is a rational.\<close>

record ScriptSig =
  ss_Asm :: "string option"
  ss_Hex :: string

record insightVin =
  vi_TxID :: string
  vi_Vout :: "int option"
  vi_N :: int
  vi_ScriptSig :: ScriptSig
  vi_TxInWitness :: "string list option"
  vi_Sequence :: int
  vi_Coinbase :: string
  vi_Address :: string
  vi_ValueSat :: int
  vi_Value :: rat

record insightVout =
  vo_Value :: string
  vo_N :: int
  vo_Asm :: string
  vo_Hex :: string
  vo_ReqSigs :: int
  vo_Addresses :: "string list"
  vo_Type :: string
  vo_SpentTxID :: "string option"
  vo_SpentTxIndex :: "int option"
  vo_SpentTxBlockHeight :: "int option"

record insightTx =
  it_TxID :: string
  it_Hash :: string
  it_Version :: int
  it_Size :: int
  it_VSize :: int
  it_Weight :: int
  it_Locktime :: int
  it_Vin :: "insightVin list"
  it_Vout :: "insightVout list"
  it_BlockHash :: string
  it_BlockHeight :: int
  it_Confirmations :: int
  it_Time :: int
  it_BlockTime :: int
  it_IsCoinBase :: bool
  it_ValueOut :: rat
  it_ValueIn :: rat
  it_Fees :: "rat option"

record insightBlock =
  ib_Block :: BlockHeader
  ib_Confirmations :: int

record insightUtxo =
  iu_Address :: string
  iu_TxID :: string
  iu_Vout :: int
  iu_ScriptPubKey :: string
  iu_ReqSigs :: int
  iu_Type :: string
  iu_Amount :: rat
  iu_Satoshis :: int
  iu_BlockHeight :: int
  iu_Confirmations :: int
  iu_Timestamp :: int

record insightTxHistoryByAddrs =
  th_TotalItems :: int
  th_From :: int
  th_To :: int
  th_Txs :: "insightTx list"

record insightTxsByBlock =
  tb_PagesTotal :: int
  tb_Txs :: "insightTx list"

section \<open>Addresses\<close>

text \<open>
  What the code uses of \<open>btcutil\<close> on the main network: \<open>DecodeAddress\<close> followed by \<open>ScriptAddress\<close>
  (\<open>None\<close> for an address that cannot be decoded), and \<open>NewAddressPubKeyHash\<close> followed by
  \<open>EncodeAddress\<close>.
\<close>

record btcutil =
  bu_ScriptAddress :: "string \<Rightarrow> data option"
  bu_PubKeyHash :: "data \<Rightarrow> string result"

definition normalizeAddrFormat :: "btcutil \<Rightarrow> string \<Rightarrow> string result" where
  "normalizeAddrFormat bu addr =
    (if HasPrefix addr ''bitcoincash:'' then
       rbind (wrapf ''failed to decode BCH cashaddr format'' (CheckDecodeCashAddress addr)) (\<lambda>(bytes, _, _).
       wrapf ''failed to create PKH address from bytes'' (bu_PubKeyHash bu bytes))
     else Inr addr)"

definition splitAndTrim :: "string \<Rightarrow> string list" where
  "splitAndTrim str = map TrimSpace (Split str CHR '','')"

section \<open>Transactions\<close>

definition processTxInput :: "btcutil \<Rightarrow> Database \<Rightarrow> Input \<Rightarrow> (conn, insightVin) io" where
  "processTxInput bu d vin =
    iobind (iowrapf ''failed to process tx input'' (GetOutputsByTxID d (in_SpentTx vin) (Some (in_SpentVout vin)))) (\<lambda>output.
    let v = \<lparr>vi_TxID = in_SpentTx vin, vi_Vout = (if in_Coinbase vin = [] then Some (in_SpentVout vin) else None),
          vi_N = in_Vin vin,
          vi_ScriptSig = \<lparr>ss_Asm = (if in_Asm vin \<noteq> [] then Some (in_Asm vin) else None), ss_Hex = in_Hex vin\<rparr>,
          vi_TxInWitness = in_TxInWitness vin, vi_Sequence = in_Sequence vin, vi_Coinbase = in_Coinbase vin,
          vi_Address = [], vi_ValueSat = 0, vi_Value = 0\<rparr>
    in case output of
         [] \<Rightarrow> ioret v
       | o1 # _ \<Rightarrow>
           iobind (iowrapf ''failed to normalize address'' (iolift (normalizeAddrFormat bu (out_Address o1)))) (\<lambda>addr.
           ioret (v\<lparr>vi_ValueSat := out_SatAmount o1, vi_Value := ToBTC (out_SatAmount o1), vi_Address := addr\<rparr>)))"

text \<open>The error of \<open>normalizeAddrFormat\<close> is sent to the error channel, which fails the whole request.\<close>

definition processTxOutput :: "btcutil \<Rightarrow> Database \<Rightarrow> string \<Rightarrow> Output \<Rightarrow> (conn, insightVout) io" where
  "processTxOutput bu d txid vout =
    iobind (GetSpentTxDetails d txid (out_Vout vout)) (\<lambda>details.
    iobind (if out_Address vout \<noteq> ''unsupported addr''
            then iowrapf ''failed to normalize address'' (iobind (iolift (normalizeAddrFormat bu (out_Address vout))) (\<lambda>a. ioret [a]))
            else ioret []) (\<lambda>addrs.
    ioret \<lparr>vo_Value = Sprintf_8f (ToBTC (out_SatAmount vout)), vo_N = out_Vout vout, vo_Asm = out_Asm vout,
      vo_Hex = out_Hex vout, vo_ReqSigs = out_ReqSigs vout, vo_Addresses = addrs,
      vo_Type = (if out_Type vout \<noteq> ''nulldata'' then out_Type vout else []),
      vo_SpentTxID = map_option SpentTxID details, vo_SpentTxIndex = map_option SpentIndex details,
      vo_SpentTxBlockHeight = map_option SpentHeight details\<rparr>))"

text \<open>\<open>valueIn += vin.ValueSat\<close>, and \<open>valueOut\<close> from the printed amounts.\<close>

definition add64 :: "int list \<Rightarrow> int" where
  "add64 xs = fold (\<lambda>x acc. i64 (acc + x)) xs 0"

definition confirmations :: "LastBlock_row option \<Rightarrow> int \<Rightarrow> int result" where
  "confirmations lb h =
    (if h \<noteq> -1 then rbind (deref lb) (\<lambda>b. Inr (i64 (i64 (last_Height b - h) + 1))) else Inr 0)"

definition insight_tx :: "DbTx \<Rightarrow> insightVin list \<Rightarrow> insightVout list \<Rightarrow> int list \<Rightarrow> int \<Rightarrow> int \<Rightarrow> insightTx" where
  "insight_tx tx vins vouts outs ts conf =
    (let valueIn = add64 (map vi_ValueSat vins); valueOut = add64 outs;
         vins = sort_key vi_N vins; vouts = sort_key vo_N vouts;
         isCoinBase = (case vins of [v] \<Rightarrow> vi_Coinbase v \<noteq> [] | _ \<Rightarrow> False)
     in \<lparr>it_TxID = dtx_TxID tx, it_Hash = dtx_Hash tx, it_Version = dtx_Version tx, it_Size = dtx_Size tx,
      it_VSize = dtx_VSize tx, it_Weight = dtx_Weight tx, it_Locktime = dtx_Locktime tx, it_Vin = vins,
      it_Vout = vouts, it_BlockHash = dtx_BlockHash tx, it_BlockHeight = dtx_BlockHeight tx,
      it_Confirmations = conf, it_Time = ts, it_BlockTime = (if dtx_BlockTime tx \<noteq> [] then ts else 0),
      it_IsCoinBase = isCoinBase, it_ValueOut = ToBTC valueOut,
      it_ValueIn = (if isCoinBase then 0 else ToBTC valueIn),
      it_Fees = (if isCoinBase then None else Some (ToBTC (i64 (valueIn - valueOut))))\<rparr>)"

text \<open>
  The goroutine for one transaction.  The inputs and outputs are processed concurrently and arrive in
  any order; the sums do not depend on it and both lists are sorted by position, which is unique.  An
  amount that cannot be read back ends the goroutine early; the amounts are printed by
  \<open>processTxOutput\<close>, so that this does not happen below 2\<open>^\<close>26 coins (\<open>ToSatoshi_shown\<close>).
\<close>

definition getTx :: "btcutil \<Rightarrow> Database \<Rightarrow> LastBlock_row option \<Rightarrow> string \<Rightarrow> (conn, insightTx) io" where
  "getTx bu d lb txid =
    iobind (iowrapf ''failed to get transactions from txids'' (GetTxByTxID d txid)) (\<lambda>tx.
    iobind (iomapM (processTxInput bu d) (dtx_Inputs tx)) (\<lambda>vins.
    iobind (iomapM (processTxOutput bu d (dtx_TxID tx)) (dtx_Outputs tx)) (\<lambda>vouts.
    iobind (iolift (rmapM (\<lambda>v. wrapf ''failed to parse value in transaction'' (ToSatoshi (vo_Value v))) vouts)) (\<lambda>outs.
    iobind (iolift (wrapf ''failed to parse timestamp from transaction'' (ToUnixTimestamp (dtx_Time tx)))) (\<lambda>ts.
    iobind (iolift (confirmations lb (dtx_BlockHeight tx))) (\<lambda>conf.
    ioret (insight_tx tx vins vouts outs ts conf)))))))"

text \<open>
  The requests for the transactions run concurrently; one error fails all.  \<open>sort.Slice\<close> is not stable:
  \<open>ord\<close> is the order in which it leaves transactions of the same height.
\<close>

definition getTxs :: "nat list \<Rightarrow> btcutil \<Rightarrow> Database \<Rightarrow> string list \<Rightarrow> (conn, insightTx list) io" where
  "getTxs ord bu d txids =
    iobind (iowrapf ''failed to get transactions from txids'' (LastBlock d)) (\<lambda>lb.
    iobind (iomapM (getTx bu d lb) txids) (\<lambda>txs.
    ioret (sort_key (\<lambda>t. - it_BlockHeight t) (reorder ord txs))))"

definition insight_utxo :: "btcutil \<Rightarrow> LastBlock_row option \<Rightarrow> Utxo \<Rightarrow> insightUtxo result" where
  "insight_utxo bu lb out =
    rbind (wrapf ''failed to parse timestamp from output'' (ToUnixTimestamp (u_Timestamp out))) (\<lambda>ts.
    rbind (confirmations lb (u_BlockHeight out)) (\<lambda>conf.
    rbind (wrapf ''failed to normalize address'' (normalizeAddrFormat bu (u_Address out))) (\<lambda>addr.
    Inr \<lparr>iu_Address = addr, iu_TxID = u_TxID out, iu_Vout = u_Vout out, iu_ScriptPubKey = u_Hex out,
      iu_ReqSigs = u_ReqSigs out, iu_Type = u_Type out, iu_Amount = ToBTC (u_SatAmount out),
      iu_Satoshis = u_SatAmount out, iu_BlockHeight = u_BlockHeight out, iu_Confirmations = conf,
      iu_Timestamp = ts\<rparr>)))"

definition getUtxos :: "nat list \<Rightarrow> btcutil \<Rightarrow> Database \<Rightarrow> string list \<Rightarrow> (conn, insightUtxo list) io" where
  "getUtxos ord bu d addrs =
    iobind (iowrapf ''failed to get utxos for addresses'' (LastBlock d)) (\<lambda>lb.
    iobind (iowrapf ''failed to get utxos for addresses'' (GetUtxosByAddrs d addrs)) (\<lambda>outs.
    iobind (iolift (rmapM (insight_utxo bu lb) outs)) (\<lambda>us.
    ioret (sort_key (\<lambda>u. - iu_BlockHeight u) (reorder ord us)))))"

section \<open>Requests and answers\<close>

text \<open>
  \<open>rq_form\<close> and \<open>rq_jsonbody\<close>: what the form decoder and the JSON decoder make of the field \<open>rawtx\<close> of the
  body; \<open>rq_parsed\<close>: the outcome of \<open>ParseForm\<close>.
\<close>

record request =
  rq_path :: string
  rq_param :: "string \<Rightarrow> string"
  rq_query :: "string \<Rightarrow> string"
  rq_ctx :: "string \<rightharpoonup> string"
  rq_type :: string
  rq_parsed :: "unit result"
  rq_form :: "string result"
  rq_jsonbody :: "string result"

datatype answer = Http_Error int | Plain string | TipHash string | InBlock insightBlock | InTx insightTx
  | InRaw RawTx | InTxs insightTxsByBlock | InTxID string | InHistory insightTxHistoryByAddrs
  | InUtxos "insightUtxo list"

type_synonym 'w handler = "request \<Rightarrow> ('w, answer) io"

text \<open>\<open>if err != nil { http.Error(w, err, code); return }\<close>.\<close>

definition or_error :: "int \<Rightarrow> ('w, 'a) io \<Rightarrow> ('a \<Rightarrow> ('w, answer) io) \<Rightarrow> ('w, answer) io" where
  "or_error code m f w = (case m w of
     (Inl (Err e), w') \<Rightarrow> (Inr (Http_Error code), w')
   | (Inl e, w') \<Rightarrow> (Inl e, w')
   | (Inr x, w') \<Rightarrow> f x w')"

section \<open>Middleware\<close>

definition CoinCtx :: "Config \<Rightarrow> 'w handler \<Rightarrow> 'w handler" where
  "CoinCtx c nxt r =
    (let coin = rq_param r ''coin'' in
     case GetCoin c coin of
       Inl _ \<Rightarrow> ioret (Http_Error 400)
     | Inr _ \<Rightarrow> nxt (r\<lparr>rq_ctx := (rq_ctx r)(''coin'' \<mapsto> coin)\<rparr>))"

definition AddressesCtx :: "'w handler \<Rightarrow> 'w handler" where
  "AddressesCtx nxt r = nxt (r\<lparr>rq_ctx := (rq_ctx r)(''addrs'' \<mapsto> rq_param r ''addrs'')\<rparr>)"

text \<open>The error of \<open>DecodeAddress\<close> is logged, and the nil address is used.\<close>

definition to_cashaddr :: "btcutil \<Rightarrow> string \<Rightarrow> string result" where
  "to_cashaddr bu addr =
    rbind (deref (bu_ScriptAddress bu addr)) (\<lambda>h.
    rbind (CheckEncodeCashAddress h ''bitcoincash'' P2PKH) (\<lambda>encoded.
    Inr (''bitcoincash:'' @ encoded)))"

definition BCHInterceptor :: "btcutil \<Rightarrow> 'w handler \<Rightarrow> 'w handler" where
  "BCHInterceptor bu nxt r =
    (if rq_ctx r ''coin'' = Some ''bch'' then
       iobind (iolift (rmapM (to_cashaddr bu) (splitAndTrim (rq_param r ''addrs'')))) (\<lambda>cashAddrs.
       nxt (r\<lparr>rq_ctx := (rq_ctx r)(''addrs'' \<mapsto> Join cashAddrs '','')\<rparr>))
     else nxt r)"

section \<open>Handlers\<close>

definition DEFAULT_TXS :: int where
  "DEFAULT_TXS = 10"

definition MAX_TRANSACTIONS :: int where
  "MAX_TRANSACTIONS = 50"

definition MAX_ADDRESSES :: int where
  "MAX_ADDRESSES = 50"

definition Status_h :: "Database \<Rightarrow> conn handler" where
  "Status_h d r =
    (if rq_query r ''q'' = ''getLastBlockHash'' then
       or_error 500 (LastBlock d) (\<lambda>lb.
       iobind (iolift (deref lb)) (\<lambda>b. ioret (TipHash (last_Hash b))))
     else ioret (Plain ''unknown query parameter''))"

definition BlockByBlockHash :: "Database \<Rightarrow> conn handler" where
  "BlockByBlockHash d r =
    or_error 500 (LastBlock d) (\<lambda>lb.
    or_error 500 (GetBlock d (ByHash (rq_param r ''blockHash''))) (\<lambda>block.
    iobind (iolift (deref lb)) (\<lambda>l.
    let conf = (if b_IsOrphan block then -1 else i64 (i64 (last_Height l - b_Height block) + 1)) in
    ioret (InBlock \<lparr>ib_Block = block, ib_Confirmations = conf\<rparr>))))"

definition TxByTxID :: "nat list \<Rightarrow> btcutil \<Rightarrow> Database \<Rightarrow> conn handler" where
  "TxByTxID ord bu d r =
    or_error 500 (getTxs ord bu d [rq_param r ''txid'']) (\<lambda>txs.
    case txs of [] \<Rightarrow> iofail (Panic ''index out of range'') | t # _ \<Rightarrow> ioret (InTx t))"

definition RawTxByTxID :: "Database \<Rightarrow> conn handler" where
  "RawTxByTxID d r = or_error 500 (GetRawTxByTxID d (rq_param r ''txid'')) (\<lambda>raw. ioret (InRaw raw))"

text \<open>\<open>int(math.Floor(float64(total+pageSize-1)) / float64(pageSize))\<close>.\<close>

definition total_pages :: "int \<Rightarrow> int" where
  "total_pages n =
    (let x = rnd53 (of_int \<lfloor>rnd53 (of_int (i64 (n + 99)))\<rfloor> / 100) in if 0 \<le> x then \<lfloor>x\<rfloor> else \<lceil>x\<rceil>)"

text \<open>The error of \<open>GetTotalTxsByBlockHash\<close> is not looked at; the total is 0 then.\<close>

definition TxsByBlockHash :: "nat list \<Rightarrow> btcutil \<Rightarrow> Database \<Rightarrow> conn handler" where
  "TxsByBlockHash ord bu d r =
    (let blockHash = rq_query r ''block'' in
     if blockHash = [] then ioret (Http_Error 400)
     else
       let pageNum = fst (Atoi (rq_query r ''pageNum'')) in
       or_error 500 (GetTxHashesByBlockHash d blockHash (Some 100) (Some (i64 (pageNum * 100)))) (\<lambda>txIds.
       or_error 500 (getTxs ord bu d txIds) (\<lambda>txs.
       iobind (iologged (GetTotalTxsByBlockHash d blockHash)) (\<lambda>t.
       ioret (InTxs \<lparr>tb_PagesTotal = total_pages (case t of None \<Rightarrow> 0 | Some n \<Rightarrow> n), tb_Txs = txs\<rparr>)))))"

definition decodeRequest :: "request \<Rightarrow> string result" where
  "decodeRequest r =
    (if rq_type r = ''application/x-www-form-urlencoded'' then
       rbind (wrapf ''error parsing form'' (rq_parsed r)) (\<lambda>_.
       wrapf ''error decoding body from form'' (rq_form r))
     else wrapf ''error decoding body from json'' (rq_jsonbody r))"

definition SendRawTx :: "'n net \<Rightarrow> Blockchain \<Rightarrow> 'n handler" where
  "SendRawTx net bc r =
    or_error 400 (iolift (decodeRequest r)) (\<lambda>rawtx.
    or_error 500 (SendRawTransaction net bc rawtx) (\<lambda>txid. ioret (InTxID txid)))"

text \<open>The type assertion on the context value panics when the value is missing.\<close>

definition ctx_addrs :: "request \<Rightarrow> string result" where
  "ctx_addrs r = (case rq_ctx r ''addrs'' of Some a \<Rightarrow> Inr a
     | None \<Rightarrow> Inl (Panic ''interface conversion: interface is nil, not string''))"

definition TxHistoryByAddrs :: "nat list \<Rightarrow> btcutil \<Rightarrow> Database \<Rightarrow> conn handler" where
  "TxHistoryByAddrs ord bu d r =
    iobind (iolift (ctx_addrs r)) (\<lambda>addrs.
    or_error 422 (iolift (TraditionalPagintion (rq_query r ''from'') (rq_query r ''to'') DEFAULT_TXS MAX_TRANSACTIONS)) (\<lambda>tp.
    let splitAddrs = splitAndTrim addrs in
    or_error 500 (GetTxIDsByAddresses d splitAddrs (LimitClause tp) (OffsetClause tp)) (\<lambda>txids.
    or_error 500 (getTxs ord bu d txids) (\<lambda>txs.
    let toPage = (if int (length txs) < i64 (ToPage tp - FromPage tp) then i64 (FromPage tp + int (length txs))
                  else ToPage tp) in
    or_error 500 (GetTotalTxsByAddresses d splitAddrs) (\<lambda>totalCount.
    ioret (InHistory \<lparr>th_TotalItems = totalCount, th_From = FromPage tp, th_To = toPage, th_Txs = txs\<rparr>))))))"

definition UtxosByAddrs :: "nat list \<Rightarrow> btcutil \<Rightarrow> Database \<Rightarrow> conn handler" where
  "UtxosByAddrs ord bu d r =
    iobind (iolift (ctx_addrs r)) (\<lambda>addrs.
    let splitAddrs = splitAndTrim addrs in
    if int (length splitAddrs) > MAX_ADDRESSES then ioret (Http_Error 422)
    else or_error 500 (getUtxos ord bu d splitAddrs) (\<lambda>outputs. ioret (InUtxos outputs)))"

end
