(* ===== verification/Insight_Bch.thy ===== *)
theory Insight_Bch
  imports Insight
begin

text \<open>
  Bitcoin Cash addresses in the API.  Requests carry the old address format, the database the new one:
  the interceptor translates on the way in and \<open>normalizeAddrFormat\<close> on the way out.
\<close>

lemma alnum_plain:
  assumes "lower_letter c \<or> digit_char c"
  shows "\<not> is_space c" "c \<noteq> CHR '',''"
  using assms by (auto simp: lower_letter_def digit_char_def is_space_def)

lemma TrimSpace_plain: "\<forall>c \<in> set s. \<not> is_space c \<Longrightarrow> TrimSpace s = s"
proof -
  assume s: "\<forall>c \<in> set s. \<not> is_space c"
  have "dropWhile is_space t = t" if "set t = set s" for t
    using that s by (cases t) auto
  then show ?thesis by (simp add: TrimSpace_def)
qed

text \<open>What \<open>btcutil\<close> does with an old address of a public key hash.\<close>

definition pubkey_address :: "btcutil \<Rightarrow> string \<Rightarrow> bool" where
  "pubkey_address bu a \<longleftrightarrow> (\<exists>h. bu_ScriptAddress bu a = Some h \<and> length h = 20 \<and> bu_PubKeyHash bu h = Inr a)"

lemma to_cashaddr_back:
  assumes "bu_ScriptAddress bu a = Some h" "length h = 20"
  obtains body where "to_cashaddr bu a = Inr (''bitcoincash:'' @ body)" "\<forall>c \<in> set body. lower_letter c \<or> digit_char c"
    "CheckDecodeCashAddress (''bitcoincash:'' @ body) = Inr (h, ''bitcoincash'', P2PKH)"
proof -
  have p: "''bitcoincash'' \<noteq> []" "\<forall>ch \<in> set ''bitcoincash''. lower_letter ch" by (simp_all add: lower_letter_def)
  obtain body where "CheckEncodeCashAddress h ''bitcoincash'' P2PKH = Inr body"
    "\<forall>c \<in> set body. lower_letter c \<or> digit_char c"
    "CheckDecodeCashAddress (''bitcoincash'' @ '':'' @ body) = Inr (h, ''bitcoincash'', P2PKH)"
    using CheckDecode_CheckEncode [OF p assms(2), of P2PKH] by blast
  then show thesis using that [of body] assms(1) by (simp add: to_cashaddr_def deref_def)
qed

lemma to_cashaddr_pubkey:
  assumes "pubkey_address bu a"
  obtains c where "to_cashaddr bu a = Inr c" "normalizeAddrFormat bu c = Inr a" "TrimSpace c = c" "CHR '','' \<notin> set c"
proof -
  obtain h where h: "bu_ScriptAddress bu a = Some h" "length h = 20" "bu_PubKeyHash bu h = Inr a"
    using assms by (auto simp: pubkey_address_def)
  obtain body where t: "to_cashaddr bu a = Inr (''bitcoincash:'' @ body)" "\<forall>c \<in> set body. lower_letter c \<or> digit_char c"
    "CheckDecodeCashAddress (''bitcoincash:'' @ body) = Inr (h, ''bitcoincash'', P2PKH)"
    using to_cashaddr_back [OF h(1,2)] .
  have "\<not> is_space c \<and> c \<noteq> CHR '',''" if "c \<in> set (''bitcoincash:'' @ body)" for c
    using that t(2) alnum_plain by (auto simp: is_space_def)
  then have "TrimSpace (''bitcoincash:'' @ body) = ''bitcoincash:'' @ body" "CHR '','' \<notin> set (''bitcoincash:'' @ body)"
    using TrimSpace_plain [of "''bitcoincash:'' @ body"] by blast+
  then show thesis
    using that [OF t(1)] t(3) h(3) by (simp add: normalizeAddrFormat_def HasPrefix_def)
qed

lemma to_cashaddrs:
  assumes "\<forall>a \<in> set as. pubkey_address bu a"
  shows "\<exists>cs. rmapM (to_cashaddr bu) as = Inr cs \<and> rmapM (normalizeAddrFormat bu) cs = Inr as \<and>
    map TrimSpace cs = cs \<and> (\<forall>c \<in> set cs. CHR '','' \<notin> set c)"
  using assms
proof (induction as)
  case (Cons a as)
  obtain c where c: "to_cashaddr bu a = Inr c" "normalizeAddrFormat bu c = Inr a" "TrimSpace c = c" "CHR '','' \<notin> set c"
    using to_cashaddr_pubkey Cons.prems by auto
  obtain cs where "rmapM (to_cashaddr bu) as = Inr cs" "rmapM (normalizeAddrFormat bu) cs = Inr as"
    "map TrimSpace cs = cs" "\<forall>c \<in> set cs. CHR '','' \<notin> set c"
    using Cons by auto
  then show ?case using c by (intro exI [of _ "c # cs"]) simp
qed simp


text \<open>
  Two other kinds of requests.  An address that cannot be decoded is not refused: the handler panics.
  The address of a script, which \<open>btcutil\<close> decodes as well, is looked up as that of a public key.
\<close>

lemma bch_undecodable_panics:
  assumes "rq_ctx r ''coin'' = Some ''bch''" "splitAndTrim (rq_param r ''addrs'') = [a]" "bu_ScriptAddress bu a = None"
  shows "\<exists>m. BCHInterceptor bu nxt r w = (Inl (Panic m), w)"
  using assms by (simp add: BCHInterceptor_def to_cashaddr_def deref_def iolift_def iobind_def)

lemma bch_script_becomes_pubkey:
  assumes "bu_ScriptAddress bu a = Some h" "length h = 20"
  shows "\<exists>c. to_cashaddr bu a = Inr c \<and> CheckDecodeCashAddress c = Inr (h, ''bitcoincash'', P2PKH)"
proof -
  obtain body where "to_cashaddr bu a = Inr (''bitcoincash:'' @ body)"
    "CheckDecodeCashAddress (''bitcoincash:'' @ body) = Inr (h, ''bitcoincash'', P2PKH)"
    using to_cashaddr_back [OF assms] .
  then show ?thesis by blast
qed

section \<open>A concrete request\<close>

definition sample_btcutil :: btcutil where
  "sample_btcutil = \<lparr>bu_ScriptAddress = (\<lambda>a. if a = ''1A'' then Some (replicate 20 7) else None),
     bu_PubKeyHash = (\<lambda>h. Inr ''1A'')\<rparr>"

definition sample_request :: request where
  "sample_request = \<lparr>rq_path = [], rq_param = (\<lambda>k. if k = ''addrs'' then ''1A, 1A'' else []), rq_query = (\<lambda>k. []),
     rq_ctx = [''coin'' \<mapsto> ''bch''], rq_type = [], rq_parsed = Inr (), rq_form = Inr [], rq_jsonbody = Inr []\<rparr>"

definition show_addrs :: "unit handler" where
  "show_addrs r = ioret (case ctx_addrs r of Inr a \<Rightarrow> Plain a | _ \<Rightarrow> Http_Error 500)"


end
