(* ===== verification/Insight_Reads.thy ===== *)
theory Insight_Reads
  imports Insight_Bch
begin

text \<open>
  The answers of the API.  \<open>yields C m P\<close> says of an operation on a connection with the property \<open>C\<close>
  that it keeps \<open>C\<close> and that its result, if any, satisfies \<open>P\<close>.  Its rules follow the structure of
  the code.  The locale \<open>reader\<close> states what \<open>C\<close> has to be for queries; it is interpreted by an
  arbitrary connection and by an undisturbed one.
\<close>

section \<open>Operations that only read\<close>

definition yields :: "(conn \<Rightarrow> bool) \<Rightarrow> (conn, 'a) io \<Rightarrow> ('a \<Rightarrow> bool) \<Rightarrow> bool" where
  "yields C m P \<longleftrightarrow> (\<forall>w r w'. C w \<longrightarrow> m w = (r, w') \<longrightarrow> C w' \<and> (\<forall>x. r = Inr x \<longrightarrow> P x))"

lemma yieldsI:
  assumes "\<And>w r w'. C w \<Longrightarrow> m w = (r, w') \<Longrightarrow> C w' \<and> (\<forall>x. r = Inr x \<longrightarrow> P x)"
  shows "yields C m P"
  using assms unfolding yields_def by blast

lemma yieldsD:
  assumes "yields C m P" "C w" "m w = (r, w')"
  shows "C w'" "r = Inr x \<Longrightarrow> P x"
  using assms unfolding yields_def by blast+

lemma yields_mono: "yields C m P \<Longrightarrow> (\<And>x. P x \<Longrightarrow> Q x) \<Longrightarrow> yields C m Q"
  unfolding yields_def by blast

lemma yields_ioret: "P x \<Longrightarrow> yields C (ioret x) P"
  by (rule yieldsI) (auto simp: ioret_def)

lemma yields_iolift: "(\<And>x. r = Inr x \<Longrightarrow> P x) \<Longrightarrow> yields C (iolift r) P"
  by (rule yieldsI) (auto simp: iolift_def)

lemma yields_any: "yields C (iolift r) (\<lambda>x. True)"
  by (rule yields_iolift) simp

lemma yields_result: "yields C (iolift r) (\<lambda>x. r = Inr x)"
  by (rule yields_iolift)

lemma yields_case_list:
  "yields C a P \<Longrightarrow> (\<And>y ys. yields C (f y ys) P) \<Longrightarrow> yields C (case xs of [] \<Rightarrow> a | y # ys \<Rightarrow> f y ys) P"
  by (cases xs) simp_all

lemma yields_if: "yields C a P \<Longrightarrow> yields C b P \<Longrightarrow> yields C (if c then a else b) P"
  by simp

lemma yields_dep: "(\<And>w. yields C (m w) P) \<Longrightarrow> yields C (\<lambda>w. m w w) P"
  unfolding yields_def by blast

lemma yields_iobind:
  assumes "yields C m P" "\<And>x. P x \<Longrightarrow> yields C (f x) Q"
  shows "yields C (iobind m f) Q"
proof (rule yieldsI)
  fix w r w' assume w: "C w" "iobind m f w = (r, w')"
  obtain q w1 where q: "m w = (q, w1)" by (metis surj_pair)
  note m = yieldsD [OF assms(1) w(1) q]
  show "C w' \<and> (\<forall>x. r = Inr x \<longrightarrow> Q x)"
  proof (cases q)
    case (Inl e)
    then show ?thesis using w(2) q m(1) by (auto simp: iobind_def)
  next
    case (Inr x)
    then have "f x w1 = (r, w')" using w(2) q by (simp add: iobind_def)
    then show ?thesis using yieldsD [OF assms(2) [OF m(2) [OF Inr]] m(1)] by blast
  qed
qed

lemma yields_iowrapf:
  assumes "yields C m P"
  shows "yields C (iowrapf msg m) P"
proof (rule yieldsI)
  fix w r w' assume w: "C w" "iowrapf msg m w = (r, w')"
  then obtain q where "m w = (q, w')" "r = wrapf msg q" by (auto simp: iowrapf_def split: prod.splits)
  then show "C w' \<and> (\<forall>x. r = Inr x \<longrightarrow> P x)"
    using yieldsD [OF assms w(1), of q w'] by (simp add: wrapf_eq_Inr_conv)
qed

lemma yields_iologged:
  assumes "yields C m P"
  shows "yields C (iologged m) (\<lambda>r. \<forall>x. r = Some x \<longrightarrow> P x)"
proof (rule yieldsI)
  fix w r w' assume w: "C w" "iologged m w = (r, w')"
  obtain q w1 where q: "m w = (q, w1)" by (metis surj_pair)
  have "w' = w1" "\<And>x. r = Inr (Some x) \<Longrightarrow> q = Inr x"
    using w(2) q by (auto simp: iologged_def split: sum.splits fault.splits)
  then show "C w' \<and> (\<forall>x. r = Inr x \<longrightarrow> (\<forall>y. x = Some y \<longrightarrow> P y))"
    using yieldsD [OF assms w(1) q] by blast
qed

lemma yields_iomapM:
  assumes "\<And>x. x \<in> set xs \<Longrightarrow> yields C (f x) (Q x)"
  shows "yields C (iomapM f xs) (list_all2 Q xs)"
  using assms
proof (induction xs)
  case Nil
  show ?case unfolding iomapM.simps by (rule yields_ioret) simp
next
  case (Cons x xs)
  have f: "yields C (f x) (Q x)" and fs: "yields C (iomapM f xs) (list_all2 Q xs)" using Cons by simp_all
  show ?case
    unfolding iomapM.simps
  proof (rule yields_iobind [OF f], rule yields_iobind [OF fs], rule yields_ioret)
    fix y ys assume "Q x y" "list_all2 Q xs ys"
    then show "list_all2 Q (x # xs) (y # ys)" by simp
  qed
qed

section \<open>The queries\<close>

lemma last_height_upper: "b \<in> set (blocks s) \<Longrightarrow> \<not> is_orphaned b \<Longrightarrow> \<exists>l. last_height (blocks s) = Some l \<and> height b \<le> l"
  unfolding last_height_def by (rule sql_max_upper) auto

definition last_query :: "plan \<Rightarrow> db \<Rightarrow> LastBlock_row result \<times> db" where
  "last_query p s = (case last_height (blocks s) of
          None \<Rightarrow> Inl (Err ErrNoRows)
        | Some h \<Rightarrow> rbind (first_row (filter (\<lambda>r. \<not> is_orphaned r \<and> height r = h) (blocks s)) p)
            (\<lambda>r. Inr \<lparr>last_Hash = block_hash r, last_Height = height r\<rparr>), s)"

lemma last_query_result:
  "case last_height (blocks s) of None \<Rightarrow> last_query p s = (Inl (Err ErrNoRows), s)
   | Some h \<Rightarrow> \<exists>b. last_query p s = (Inr b, s) \<and> last_Height b = h"
proof (cases "last_height (blocks s)")
  case None
  then show ?thesis by (simp add: last_query_def)
next
  case (Some h)
  let ?rs = "reorder (p_order p) (filter (\<lambda>r. \<not> is_orphaned r \<and> height r = h) (blocks s))"
  have "h \<in> set (map height (filter (\<lambda>r. \<not> is_orphaned r) (blocks s)))"
    using sql_max_mem Some unfolding last_height_def by blast
  then have "?rs \<noteq> []" by (auto simp: filter_empty_conv)
  then obtain r rs where rs: "?rs = r # rs" by (cases ?rs) auto
  then have "r \<in> set ?rs" by simp
  then have "height r = h" unfolding set_reorder by simp
  then show ?thesis using rs Some by (simp add: last_query_def first_row_def)
qed

lemma LastBlock_result:
  assumes "LastBlock d w = (r, w')"
  shows "w' = w\<lparr>c_plans := tl (c_plans w)\<rparr> \<and>
    (\<forall>x. r = Inr x \<longrightarrow> map_option last_Height x = last_height (blocks (c_db w)))"
proof -
  let ?p = "next_plan w" and ?s = "c_db w"
  have l: "LastBlock d w = (case QueryRow last_query w of (Inr b, w') \<Rightarrow> (Inr (Some b), w')
     | (Inl e, w') \<Rightarrow> (if e = Err ErrNoRows then Inr None else wrapf ''failed to get last block'' (Inl e), w'))"
    unfolding LastBlock_def last_query_def ..
  have q: "last_height (blocks ?s) = None \<Longrightarrow> last_query ?p ?s = (Inl (Err ErrNoRows), ?s)"
    "last_height (blocks ?s) = Some h \<Longrightarrow> \<exists>b. last_query ?p ?s = (Inr b, ?s) \<and> last_Height b = h" for h
    using last_query_result [where s = "?s" and p = "?p"] by simp_all
  show ?thesis
  proof (cases "last_height (blocks ?s)")
    case None
    show ?thesis
      using assms [unfolded l QueryRow_def run_def q(1) [OF None]]
      by (cases "p_outcome ?p") (auto simp: None split: if_splits)
  next
    case (Some h)
    then obtain b where b: "last_query ?p ?s = (Inr b, ?s)" "last_Height b = h" using q(2) by blast
    show ?thesis
      using assms [unfolded l QueryRow_def run_def b(1)] b(2)
      by (cases "p_outcome ?p") (auto simp: Some split: if_splits)
  qed
qed

lemma distinct_map_reorder [simp]: "distinct (map f (reorder ord xs)) = distinct (map f xs)"
  by (rule mset_eq_imp_distinct_iff) simp

lemma concat_map_Nil [simp]: "concat (map (\<lambda>r. []) rs) = []"
  by (induction rs) simp_all

text \<open>The rows of a table that belong to the transaction with the given hash.\<close>

lemma joined_keys:
  assumes "wf_db s" "distinct (map (\<lambda>r. (kf r, nf r)) rs)"
  shows "distinct (map nf (concat (map (\<lambda>r. concat (map (\<lambda>u. map (\<lambda>b. r) (left_block s u))
      (filter (\<lambda>u. t_id u = kf r \<and> t_txid u = txid) (txs s)))) rs)))"
proof (cases "\<exists>t \<in> set (txs s). t_txid t = txid")
  case True
  then obtain t where t: "t \<in> set (txs s)" "t_txid t = txid" by blast
  have "distinct (map nf (filter (\<lambda>r. kf r = t_id t) rs))"
    using assms(2) by (auto simp: distinct_map inj_on_def)
  then show ?thesis using join_single [OF assms(1) t(1), of "\<lambda>r. r" kf rs] t(2) by simp
next
  case False
  then have "filter (\<lambda>u. t_id u = k \<and> t_txid u = txid) (txs s) = []" for k by (auto simp: filter_empty_conv)
  then show ?thesis by simp
qed

lemma concat_map_map: "concat (map (\<lambda>r. concat (map (\<lambda>u. map (\<lambda>b. f r) (g u)) (h r))) rs) =
    map f (concat (map (\<lambda>r. concat (map (\<lambda>u. map (\<lambda>b. r) (g u)) (h r))) rs))"
  by (simp add: map_concat comp_def)

definition stored_tx :: "db \<Rightarrow> string \<Rightarrow> DbTx \<Rightarrow> bool" where
  "stored_tx s txid tx \<longleftrightarrow> dtx_TxID tx = txid \<and>
     (dtx_BlockHeight tx = -1 \<or> (\<exists>b \<in> set (blocks s). \<not> is_orphaned b \<and> height b = dtx_BlockHeight tx)) \<and>
     distinct (map in_Vin (dtx_Inputs tx)) \<and> distinct (map out_Vout (dtx_Outputs tx))"

definition well_formed :: "insightTx \<Rightarrow> bool" where
  "well_formed t \<longleftrightarrow>
     sorted_wrt (<) (map vi_N (it_Vin t)) \<and> sorted_wrt (<) (map vo_N (it_Vout t)) \<and>
     (\<forall>v \<in> set (it_Vout t). \<exists>n. ToSatoshi (vo_Value v) = Inr n) \<and>
     (if it_BlockHeight t = -1 then it_Confirmations t = 0 else 1 \<le> it_Confirmations t) \<and>
     (it_IsCoinBase t \<longleftrightarrow> it_Fees t = None) \<and>
     (it_IsCoinBase t \<longleftrightarrow> (\<exists>v. it_Vin t = [v] \<and> vi_Coinbase v \<noteq> []))"

lemma sorted_by_position:
  assumes "list_all2 (\<lambda>x y. f y = g x) xs ys" "distinct (map g xs)"
  shows "sorted_wrt (<) (map f (sort_key f ys))"
proof -
  have "map f ys = map g xs" using assms(1) by (induction) simp_all
  then have "distinct (map f ys)" using assms(2) by simp
  then have "distinct (map f (sort_key f ys))" using mset_eq_imp_distinct_iff [of "map f (sort_key f ys)" "map f ys"] by simp
  then show ?thesis by (intro strict_sorted_iff [THEN iffD2]) simp
qed

lemma confirmations_positive:
  assumes "h = -1 \<or> (\<exists>b \<in> set (blocks s). \<not> is_orphaned b \<and> height b = h)" "\<forall>b \<in> set (blocks s). in_i32 (height b)"
    "map_option last_Height lb = last_height (blocks s)" "confirmations lb h = Inr n"
  shows "if h = -1 then n = 0 else 1 \<le> n"
proof (cases "h = -1")
  case False
  then obtain b where b: "b \<in> set (blocks s)" "\<not> is_orphaned b" "height b = h" using assms(1) by blast
  obtain l where l: "last_height (blocks s) = Some l" "h \<le> l" using last_height_upper [OF b(1,2)] b(3) by blast
  have "in_i32 l"
    using sql_max_mem [OF l(1) [unfolded last_height_def]] assms(2) by auto
  moreover have "in_i32 h" using b assms(2) by blast
  ultimately have i: "i64 (i64 (l - h) + 1) = l - h + 1"
    using l(2) by (simp add: i64_id in_i64_def in_i32_def)
  obtain lb' where "lb = Some lb'" "last_Height lb' = l" using assms(3) l(1) by auto
  then show ?thesis using assms(4) False i l(2) by (simp add: confirmations_def deref_def)
qed (use assms(4) in \<open>simp add: confirmations_def\<close>)

definition by_height :: "insightTx list \<Rightarrow> bool" where
  "by_height ts \<longleftrightarrow> sorted_wrt (\<ge>) (map it_BlockHeight ts)"

lemma sort_desc: "sorted_wrt (\<ge>) (map f (sort_key (\<lambda>x. - f x) xs))" for f :: "'a \<Rightarrow> int"
proof -
  have "sorted_wrt (\<lambda>x y. - f x \<le> - f y) (sort_key (\<lambda>x. - f x) xs)"
    using sorted_sort_key [of "\<lambda>x. - f x" xs] unfolding sorted_map by simp
  then show ?thesis unfolding sorted_wrt_map by simp
qed

section \<open>Readers\<close>

text \<open>
  The database is the given one, and a query, which uses up what is planned for it, does not change
  that.
\<close>

locale reader =
  fixes C :: "conn \<Rightarrow> bool" and s :: db
  assumes db: "C w \<Longrightarrow> c_db w = s"
    and spent: "C w \<Longrightarrow> C (w\<lparr>c_plans := tl (c_plans w)\<rparr>)"
begin

lemma yields_QueryRow:
  assumes "\<And>p. snd (q p s) = s" "\<And>p x. fst (q p s) = Inr x \<Longrightarrow> P x"
  shows "yields C (QueryRow q) P"
proof (rule yieldsI)
  fix w r w' assume w: "C w" "QueryRow q w = (r, w')"
  obtain x where x: "q (next_plan w) s = (x, s)" using assms(1) [of "next_plan w"] by (metis prod.collapse)
  have "w\<lparr>c_db := s, c_plans := tl (c_plans w)\<rparr> = w\<lparr>c_plans := tl (c_plans w)\<rparr>" using db [OF w(1)] by simp
  then show "C w' \<and> (\<forall>x. r = Inr x \<longrightarrow> P x)"
    using w x db [OF w(1)] spent [OF w(1)] assms(2) [of "next_plan w"]
    by (auto simp: QueryRow_def run_def split: outcome.splits if_splits)
qed

lemma yields_Query:
  assumes "\<And>w. C w \<Longrightarrow> \<forall>rs. clauses (reorder (p_order (next_plan w)) (sel s)) = Inr rs \<longrightarrow>
      P rs \<and> (\<forall>n. p_outcome (next_plan w) = Cut n \<longrightarrow> P (take n rs))"
  shows "yields C (Query sel clauses) P"
proof (rule yieldsI)
  fix w r w' assume w: "C w" "Query sel clauses w = (r, w')"
  then show "C w' \<and> (\<forall>x. r = Inr x \<longrightarrow> P x)"
    using assms [OF w(1)] db [OF w(1)] spent [OF w(1)]
    by (auto simp: Query_def Let_def rbind_eq_Inr_conv split: outcome.splits)
qed

lemma yields_LastBlock: "yields C (LastBlock d) (\<lambda>lb. map_option last_Height lb = last_height (blocks s))"
proof (rule yieldsI)
  fix w r w' assume w: "C w" "LastBlock d w = (r, w')"
  show "C w' \<and> (\<forall>x. r = Inr x \<longrightarrow> map_option last_Height x = last_height (blocks s))"
    using LastBlock_result [OF w(2)] spent [OF w(1)] db [OF w(1)] by simp
qed

lemma yields_GetInputs:
  assumes "wf_db s"
  shows "yields C (GetInputsByTxID d txid) (\<lambda>is. distinct (map in_Vin is))"
proof -
  have "distinct (map (\<lambda>r. (i_transaction_id r, i_vin r)) (inputs s))" using wf_dbD(7) [OF assms] by simp
  note k = joined_keys [OF assms this, of txid]
  have "in_Vin \<circ> scan_input = i_vin" by (simp add: fun_eq_iff scan_input_def)
  then have "distinct (map in_Vin (reorder ord (concat (map (\<lambda>r. concat (map (\<lambda>t. map (\<lambda>b. scan_input r) (left_block s t))
            (filter (\<lambda>t. t_id t = i_transaction_id r \<and> t_txid t = txid) (txs s)))) (inputs s)))))" for ord
    using k unfolding distinct_map_reorder concat_map_map [of scan_input] map_map by simp
  then show ?thesis
    unfolding GetInputsByTxID_def by (intro yields_iowrapf yields_Query) (auto simp: take_map [symmetric])
qed

lemma yields_GetOutputs:
  assumes "wf_db s"
  shows "yields C (GetOutputsByTxID d txid v) (\<lambda>os. distinct (map out_Vout os))"
proof -
  let ?rs = "filter (\<lambda>r. case v of None \<Rightarrow> True | Some n \<Rightarrow> o_vout r = n) (outputs s)"
  have "distinct (map (\<lambda>r. (o_transaction_id r, o_vout r)) ?rs)"
    using wf_dbD(6) [OF assms] by (simp add: distinct_map_filter)
  note k = joined_keys [OF assms this, of txid]
  have "out_Vout \<circ> scan_output = o_vout" by (simp add: fun_eq_iff scan_output_def)
  then have "distinct (map out_Vout (reorder ord (concat (map (\<lambda>r. concat (map (\<lambda>t. map (\<lambda>b. scan_output r) (left_block s t))
            (filter (\<lambda>t. t_id t = o_transaction_id r \<and> t_txid t = txid) (txs s)))) ?rs))))" for ord
    using k unfolding distinct_map_reorder concat_map_map [of scan_output] map_map by simp
  then show ?thesis
    unfolding GetOutputsByTxID_def by (intro yields_iowrapf yields_Query) (auto simp: take_map [symmetric])
qed

lemma yields_GetTxByTxID:
  assumes "wf_db s"
  shows "yields C (GetTxByTxID d txid) (stored_tx s txid)"
proof -
  let ?q = "QueryRow (\<lambda>p s. (first_row (tx_rows s txid) p, s))"
  have row: "yields C ?q (\<lambda>x. x \<in> set (tx_rows s txid))"
    by (rule yields_QueryRow) (auto simp: first_row_def split: list.splits intro: list.set_intros dest: arg_cong [of _ _ set])
  have scan: "dtx_TxID (scan_tx fmt now x) = txid \<and> (dtx_BlockHeight (scan_tx fmt now x) = -1 \<or>
      (\<exists>b \<in> set (blocks s). \<not> is_orphaned b \<and> height b = dtx_BlockHeight (scan_tx fmt now x)))"
    if mem: "x \<in> set (tx_rows s txid)" for x fmt now
  proof -
    obtain t b where x: "x = (t, b)" "t_txid t = txid" "b \<in> set (left_block s t)"
      using mem unfolding tx_rows_def by auto
    obtain b' where "left_block s t = [b']"
      "\<And>r. b' = Some r \<Longrightarrow> r \<in> set (blocks s) \<and> t_block_id t = Some (blk_id r) \<and> \<not> is_orphaned r"
      using left_block_single [OF assms, of t] by blast
    then show ?thesis using x by (cases b) (auto simp: scan_tx_def)
  qed
  have "yields C (iowrapf ''failed to get transaction from txid''
    (iobind ?q (\<lambda>r. let t = scan_tx (c_fmt w) (c_now w) r in
     iobind (GetInputsByTxID d (dtx_TxID t)) (\<lambda>is.
     iobind (GetOutputsByTxID d (dtx_TxID t) None) (\<lambda>os.
     ioret (t\<lparr>dtx_Inputs := is, dtx_Outputs := os\<rparr>)))))) (stored_tx s txid)" for w :: conn
    unfolding Let_def
    by (intro yields_iowrapf yields_iobind [OF row] yields_iobind [OF yields_GetInputs [OF assms]]
        yields_iobind [OF yields_GetOutputs [OF assms]] yields_ioret)
      (use scan in \<open>simp add: stored_tx_def\<close>)
  from yields_dep [OF this] show ?thesis unfolding GetTxByTxID_def [abs_def] .
qed

lemma yields_processTxInput:
  assumes "wf_db s"
  shows "yields C (processTxInput bu d v) (\<lambda>x. vi_N x = in_Vin v)"
  unfolding processTxInput_def Let_def
  by (rule yields_iobind [OF yields_iowrapf [OF yields_GetOutputs [OF assms]]], rule yields_case_list,
      rule yields_ioret, simp, rule yields_iobind [OF yields_iowrapf [OF yields_any]], rule yields_ioret, simp)

lemma yields_GetSpentTxDetails: "yields C (GetSpentTxDetails d txid n) (\<lambda>x. True)"
  unfolding GetSpentTxDetails_def
  by (rule yields_mono [OF yields_iologged [OF yields_QueryRow [where P = "\<lambda>x. True"]]]) simp_all

lemma yields_processTxOutput:
  "yields C (processTxOutput bu d txid v) (\<lambda>x. vo_N x = out_Vout v \<and> vo_Value x = Sprintf_8f (ToBTC (out_SatAmount v)))"
  unfolding processTxOutput_def
  by (rule yields_iobind [OF yields_GetSpentTxDetails], rule yields_iobind [where P = "\<lambda>x. True"],
      rule yields_if, rule yields_iowrapf, rule yields_iobind [OF yields_any], rule yields_ioret, simp,
      rule yields_ioret, simp, rule yields_ioret, simp)

lemma yields_getTx:
  assumes "wf_db s" "\<forall>b \<in> set (blocks s). in_i32 (height b)" "map_option last_Height lb = last_height (blocks s)"
  shows "yields C (getTx bu d lb txid) (\<lambda>t. well_formed t \<and> it_TxID t = txid)"
  unfolding getTx_def
proof (rule yields_iobind [OF yields_iowrapf [OF yields_GetTxByTxID [OF assms(1)]]],
    rule yields_iobind [OF yields_iomapM [OF yields_processTxInput [OF assms(1)]]],
    rule yields_iobind [OF yields_iomapM [OF yields_processTxOutput]],
    rule yields_iobind [OF yields_result], rule yields_iobind [OF yields_any],
    rule yields_iobind [OF yields_result], rule yields_ioret)
  fix tx :: DbTx and vins :: "insightVin list" and vouts :: "insightVout list" and outs ts n
  assume tx: "stored_tx s txid tx"
    and vins: "list_all2 (\<lambda>v x. vi_N x = in_Vin v) (dtx_Inputs tx) vins"
    and vouts: "list_all2 (\<lambda>v x. vo_N x = out_Vout v \<and> vo_Value x = Sprintf_8f (ToBTC (out_SatAmount v))) (dtx_Outputs tx) vouts"
    and outs: "rmapM (\<lambda>v. wrapf ''failed to parse value in transaction'' (ToSatoshi (vo_Value v))) vouts = Inr outs"
    and n: "confirmations lb (dtx_BlockHeight tx) = Inr n"
  have "sorted_wrt (<) (map vi_N (sort_key vi_N vins))"
    using sorted_by_position [OF vins] tx by (simp add: stored_tx_def)
  moreover have "sorted_wrt (<) (map vo_N (sort_key vo_N vouts))"
  proof (rule sorted_by_position)
    show "list_all2 (\<lambda>x y. vo_N y = out_Vout x) (dtx_Outputs tx) vouts" using vouts by (rule list_all2_mono) simp
  qed (use tx in \<open>simp add: stored_tx_def\<close>)
  moreover have "\<forall>v \<in> set vouts. \<exists>n. ToSatoshi (vo_Value v) = Inr n"
    using outs by (auto simp: rmapM_Inr_iff list_all2_conv_all_nth in_set_conv_nth wrapf_eq_Inr_conv)
  moreover have "if dtx_BlockHeight tx = -1 then n = 0 else 1 \<le> n"
    using confirmations_positive [OF _ assms(2,3) n] tx by (simp add: stored_tx_def)
  ultimately show "well_formed (insight_tx tx vins vouts outs ts n) \<and> it_TxID (insight_tx tx vins vouts outs ts n) = txid"
    using tx by (auto simp: insight_tx_def Let_def well_formed_def stored_tx_def split: list.splits)
qed

lemma yields_getTxs:
  assumes "wf_db s" "\<forall>b \<in> set (blocks s). in_i32 (height b)"
  shows "yields C (getTxs ord bu d txids) (\<lambda>ts. (\<forall>t \<in> set ts. well_formed t) \<and> by_height ts \<and>
    mset (map it_TxID ts) = mset txids)"
  unfolding getTxs_def
proof (rule yields_iobind [OF yields_iowrapf [OF yields_LastBlock]],
    rule yields_iobind [OF yields_iomapM [OF yields_getTx [OF assms]]], assumption, rule yields_ioret, intro conjI)
  fix lb ts assume ts: "list_all2 (\<lambda>txid t. well_formed t \<and> it_TxID t = txid) txids ts"
  then have "\<forall>t \<in> set ts. well_formed t" by (auto simp: list_all2_conv_all_nth in_set_conv_nth)
  then show "\<forall>t \<in> set (sort_key (\<lambda>t. - it_BlockHeight t) (reorder ord ts)). well_formed t" by simp
  show "by_height (sort_key (\<lambda>t. - it_BlockHeight t) (reorder ord ts))" unfolding by_height_def by (rule sort_desc)
  have "map it_TxID ts = txids" using ts by induction simp_all
  then have "image_mset it_TxID (mset ts) = mset txids" by (metis mset_map)
  then show "mset (map it_TxID (sort_key (\<lambda>t. - it_BlockHeight t) (reorder ord ts))) = mset txids" by simp
qed

end

text \<open>Any connection to a database, and an undisturbed one.\<close>

interpretation connected: reader "\<lambda>w. c_db w = s" s
  by unfold_locales simp_all

interpretation calm: reader "\<lambda>w. c_db w = s \<and> c_plans w = []" s
  by unfold_locales simp_all

section \<open>Well formed answers\<close>

text \<open>
  C11: answers are well formed.  On a database that satisfies its constraints, whatever happens to the
  connection, transactions that are returned are the requested ones, sorted by falling height, with
  their inputs and outputs in order and without repetitions, amounts that can be read back, no
  confirmations exactly for those without a height, and fees exactly for those that are not
  coinbases; nothing is written.
\<close>

theorem getTxs_well_formed:
  assumes "wf_db (c_db w)" "\<forall>b \<in> set (blocks (c_db w)). in_i32 (height b)" "getTxs ord bu d txids w = (r, w')"
  shows "c_db w' = c_db w \<and> (\<forall>ts. r = Inr ts \<longrightarrow> (\<forall>t \<in> set ts. well_formed t) \<and> by_height ts \<and>
    mset (map it_TxID ts) = mset txids)"
  using yieldsD [OF connected.yields_getTxs [OF assms(1,2)] refl assms(3)] by blast

section \<open>A sample answer\<close>

definition shown_conn :: conn where
  "shown_conn = (sample_conn [])\<lparr>c_fmt := \<lambda>t. ''2009-01-03T18:15:05Z''\<rparr>"

definition plain_btcutil :: btcutil where
  "plain_btcutil = \<lparr>bu_ScriptAddress = (\<lambda>a. None), bu_PubKeyHash = (\<lambda>h. Inr [])\<rparr>"

lemma shown_time: "ToUnixTimestamp ''2009-01-03T18:15:05Z'' = Inr 1231006505"
  by code_simp

lemma shown_conn [simp]: "c_db shown_conn = sample_db" "c_plans shown_conn = []" "next_plan shown_conn = \<lparr>p_outcome = Done, p_order = [], p_pick = hd\<rparr>"
  "c_fmt shown_conn = (\<lambda>t. ''2009-01-03T18:15:05Z'')"
   "shown_conn\<lparr>c_plans := []\<rparr> = shown_conn"
   "shown_conn\<lparr>c_db := sample_db, c_plans := []\<rparr> = shown_conn"
  by (simp_all add: shown_conn_def sample_conn_def next_plan_def)



interpretation shown: reader "\<lambda>w. w = shown_conn" sample_db
  by unfold_locales simp_all


lemma shown_run:
  assumes "yields (\<lambda>w. w = shown_conn) m P" "fst (m shown_conn) = r"
  shows "m shown_conn = (r, shown_conn)"
proof -
  have "m shown_conn = (r, snd (m shown_conn))" using assms(2) by (simp add: prod_eq_iff)
  from yieldsD(1) [OF assms(1) refl this] this show ?thesis by simp
qed

lemma shown_last: "\<exists>lb. LastBlock sample_handle shown_conn = (Inr (Some lb), shown_conn) \<and> last_Height lb = 0"
proof -
  have "last_height (blocks sample_db) = Some 0" by code_simp
  then show ?thesis using LastBlock_undisturbed [of shown_conn sample_handle] by auto
qed

definition shown_input :: Input where
  "shown_input = \<lparr>in_Vin = 0, in_SpentTx = ''p'', in_SpentVout = 0, in_Asm = [], in_Hex = [], in_Sequence = 0,
     in_TxInWitness = None, in_Coinbase = []\<rparr>"

lemma shown_tx: "\<exists>tx. GetTxByTxID sample_handle ''q'' shown_conn = (Inr tx, shown_conn) \<and> dtx_TxID tx = ''q'' \<and>
  dtx_BlockHeight tx = 0 \<and> dtx_Time tx = ''2009-01-03T18:15:05Z'' \<and> dtx_Inputs tx = [shown_input] \<and>
  dtx_Outputs tx = [scan_output (sample_out_row 3 2 0 ''B'' 4)]"
proof -
  let ?r = "fst (GetTxByTxID sample_handle ''q'' shown_conn)"
  have "case ?r of Inr tx \<Rightarrow> dtx_TxID tx = ''q'' \<and> dtx_BlockHeight tx = 0 \<and>
    dtx_Time tx = ''2009-01-03T18:15:05Z'' \<and> dtx_Inputs tx = [shown_input] \<and>
    dtx_Outputs tx = [scan_output (sample_out_row 3 2 0 ''B'' 4)] | _ \<Rightarrow> False" by code_simp
  then obtain tx where tx: "?r = Inr tx" "dtx_TxID tx = ''q''" "dtx_BlockHeight tx = 0" "dtx_Inputs tx = [shown_input]"
    "dtx_Time tx = ''2009-01-03T18:15:05Z''" "dtx_Outputs tx = [scan_output (sample_out_row 3 2 0 ''B'' 4)]"
    by (cases ?r) simp_all
  show ?thesis using shown_run [OF shown.yields_GetTxByTxID [OF sample_db_wf] tx(1)] tx(2-) by blast
qed

lemma shown_in: "\<exists>x. processTxInput plain_btcutil sample_handle shown_input shown_conn = (Inr x, shown_conn) \<and> vi_Coinbase x = []"
proof -
  have "fst (GetOutputsByTxID sample_handle ''p'' (Some 0) shown_conn) = Inr [scan_output (sample_out_row 1 1 0 ''A'' 5)]"
    by code_simp
  from shown_run [OF shown.yields_GetOutputs [OF sample_db_wf] this]
  show ?thesis
    by (simp add: processTxInput_def iobind_def iowrapf_def shown_input_def normalizeAddrFormat_def HasPrefix_def scan_output_def sample_out_row_def)
qed

lemma shown_out: "\<exists>x. processTxOutput plain_btcutil sample_handle ''q'' (scan_output (sample_out_row 3 2 0 ''B'' 4)) shown_conn = (Inr x, shown_conn) \<and>
   vo_Value x = Sprintf_8f (ToBTC 4)"
proof -
  have "fst (GetSpentTxDetails sample_handle ''q'' 0 shown_conn) = Inr None" by code_simp
  from shown_run [OF shown.yields_GetSpentTxDetails this]
  show ?thesis
    by (simp add: processTxOutput_def iobind_def iowrapf_def normalizeAddrFormat_def HasPrefix_def scan_output_def sample_out_row_def)
qed

lemma shown_txs: "\<exists>x. getTxs [] plain_btcutil sample_handle [''q''] shown_conn = (Inr [x], shown_conn) \<and> it_TxID x = ''q'' \<and> \<not> it_IsCoinBase x \<and>
   it_BlockHeight x = 0"
proof -
  obtain lb where "LastBlock sample_handle shown_conn = (Inr (Some lb), shown_conn)" "last_Height lb = 0" using shown_last by blast
  moreover obtain tx where "GetTxByTxID sample_handle ''q'' shown_conn = (Inr tx, shown_conn)" "dtx_TxID tx = ''q''"
    "dtx_BlockHeight tx = 0" "dtx_Time tx = ''2009-01-03T18:15:05Z''" "dtx_Inputs tx = [shown_input]"
    "dtx_Outputs tx = [scan_output (sample_out_row 3 2 0 ''B'' 4)]" using shown_tx by blast
  moreover obtain vi where "processTxInput plain_btcutil sample_handle shown_input shown_conn = (Inr vi, shown_conn)" "vi_Coinbase vi = []"
    using shown_in by blast
  moreover obtain vo where "processTxOutput plain_btcutil sample_handle ''q'' (scan_output (sample_out_row 3 2 0 ''B'' 4)) shown_conn = (Inr vo, shown_conn)"
    "vo_Value vo = Sprintf_8f (ToBTC 4)" using shown_out by blast
  moreover have "ToSatoshi (Sprintf_8f (ToBTC 4)) = Inr 4" by (rule ToSatoshi_shown) simp_all
  ultimately show ?thesis
    by (simp add: getTxs_def getTx_def iobind_def iowrapf_def iolift_def shown_time confirmations_def deref_def insight_tx_def Let_def)
qed

theorem getTxs_well_formed_witness:
  "\<exists>x. fst (getTxs [] plain_btcutil sample_handle [''q''] shown_conn) = Inr [x] \<and> well_formed x \<and>
    it_TxID x = ''q'' \<and> 1 \<le> it_Confirmations x \<and> it_Fees x \<noteq> None"
proof -
  obtain x where x: "getTxs [] plain_btcutil sample_handle [''q''] shown_conn = (Inr [x], shown_conn)" "it_TxID x = ''q''"
    "\<not> it_IsCoinBase x" "it_BlockHeight x = 0" using shown_txs by blast
  have "\<forall>b \<in> set (blocks sample_db). in_i32 (height b)"
    by (simp add: sample_db_def new_block_row_def hdr_def in_i32_def)
  with getTxs_well_formed [OF _ _ x(1)] sample_db_wf have "well_formed x" by simp
  then show ?thesis using x by (auto simp: well_formed_def)
qed

end
