(* ===== verification/Insight_Amounts.thy ===== *)
theory Insight_Amounts
  imports Insight_Reads
begin

text \<open>
  What the API reports of the amounts of a transaction, and the pages of an address history, on an
  undisturbed connection.
\<close>

abbreviation calm :: "db \<Rightarrow> conn \<Rightarrow> bool" where
  "calm s \<equiv> \<lambda>w. c_db w = s \<and> c_plans w = []"

section \<open>Amounts\<close>

definition spent_outputs :: "db \<Rightarrow> string \<Rightarrow> int \<Rightarrow> output_row list" where
  "spent_outputs s txid n = filter (\<lambda>r. t_txid (tx_of s r) = txid \<and> o_vout r = n) (outputs s)"

definition total_out :: "db \<Rightarrow> tx_row \<Rightarrow> int" where
  "total_out s t = (\<Sum>r\<leftarrow>filter (\<lambda>r. o_transaction_id r = t_id t) (outputs s). o_amount r)"

definition total_in :: "db \<Rightarrow> tx_row \<Rightarrow> int" where
  "total_in s t = (\<Sum>i\<leftarrow>filter (\<lambda>i. i_transaction_id i = t_id t) (inputs s).
     \<Sum>r\<leftarrow>spent_outputs s (i_spent_txid i) (i_spent_vout i). o_amount r)"

text \<open>No amount is negative and no transaction moves 2\<open>^\<close>26 coins or more.\<close>

definition in_supply :: "db \<Rightarrow> bool" where
  "in_supply s \<longleftrightarrow> (\<forall>r \<in> set (outputs s). 0 \<le> o_amount r) \<and>
     (\<forall>t \<in> set (txs s). total_out s t < 2 ^ 26 * 10 ^ 8 \<and> total_in s t < 2 ^ 26 * 10 ^ 8)"

lemma add64_sum:
  assumes "\<forall>x \<in> set xs. 0 \<le> x" "sum_list xs < 2 ^ 63"
  shows "add64 xs = sum_list xs"
proof -
  have "fold (\<lambda>x acc. i64 (acc + x)) xs a = a + sum_list xs"
    if "\<forall>x \<in> set xs. 0 \<le> x" "a + sum_list xs < 2 ^ 63" "0 \<le> a" for a
    using that
  proof (induction xs arbitrary: a)
    case (Cons x xs)
    have "0 \<le> sum_list xs" using Cons.prems(1) by (intro sum_list_nonneg) simp
    then have "i64 (a + x) = a + x" using Cons.prems by (simp add: i64_id in_i64_def)
    then show ?case using Cons.IH [of "a + x"] Cons.prems by (simp add: algebra_simps)
  qed simp
  from this [of 0] assms show ?thesis by (simp add: add64_def)
qed

lemma concat_map_if: "concat (map (\<lambda>r. if P r then [f r] else []) rs) = map f (filter P rs)"
  by (induction rs) simp_all

lemma output_tx:
  assumes "wf_db s" "r \<in> set (outputs s)"
  shows "filter (\<lambda>u. t_id u = o_transaction_id r \<and> t_txid u = txid) (txs s) =
    (if t_txid (tx_of s r) = txid then [tx_of s r] else [])"
  using filter_unique [OF wf_dbD(2) [OF assms(1)] tx_of(2) [OF assms], of "\<lambda>u. t_txid u = txid"]
  by (simp add: tx_of(3) [OF assms])

lemma output_rows:
  assumes "wf_db s"
  shows "concat (map (\<lambda>r. concat (map (\<lambda>u. map (\<lambda>b. scan_output r) (left_block s u))
      (filter (\<lambda>u. t_id u = o_transaction_id r \<and> t_txid u = txid) (txs s))))
      (filter (\<lambda>r. case v of None \<Rightarrow> True | Some n \<Rightarrow> o_vout r = n) (outputs s))) =
    map scan_output (filter (\<lambda>r. t_txid (tx_of s r) = txid \<and> (case v of None \<Rightarrow> True | Some n \<Rightarrow> o_vout r = n)) (outputs s))"
    (is "concat (map ?f ?rs) = _")
proof -
  have "?f r = (if t_txid (tx_of s r) = txid then [scan_output r] else [])" if "r \<in> set ?rs" for r
    using that output_tx [OF assms, of r txid] by (simp add: map_left_block [OF assms])
  then have "map ?f ?rs = map (\<lambda>r. if t_txid (tx_of s r) = txid then [scan_output r] else []) ?rs"
    by (intro map_cong refl)
  then show ?thesis by (simp only: concat_map_if filter_filter conj_commute)
qed

lemma calm_GetOutputs:
  assumes "wf_db s"
  shows "yields (calm s) (GetOutputsByTxID d txid v) (\<lambda>os. os = map scan_output
    (filter (\<lambda>r. t_txid (tx_of s r) = txid \<and> (case v of None \<Rightarrow> True | Some n \<Rightarrow> o_vout r = n)) (outputs s)))"
  unfolding GetOutputsByTxID_def
  by (intro yields_iowrapf calm.yields_Query) (simp add: undisturbed output_rows [OF assms])

lemma calm_GetInputs:
  assumes "wf_db s" "t \<in> set (txs s)"
  shows "yields (calm s) (GetInputsByTxID d (t_txid t))
    (\<lambda>is. is = map scan_input (filter (\<lambda>i. i_transaction_id i = t_id t) (inputs s)))"
  unfolding GetInputsByTxID_def
  by (intro yields_iowrapf calm.yields_Query) (simp add: undisturbed join_single [OF assms])

lemma outputs_of_tx:
  assumes "wf_db s" "t \<in> set (txs s)" "r \<in> set (outputs s)"
  shows "t_txid (tx_of s r) = t_txid t \<longleftrightarrow> o_transaction_id r = t_id t"
  using assms tx_of(2,3) [OF assms(1,3)] wf_dbD(2,3) [OF assms(1)] by (metis distinct_map inj_onD)

definition full_tx :: "db \<Rightarrow> string \<Rightarrow> DbTx \<Rightarrow> bool" where
  "full_tx s txid tx \<longleftrightarrow> (\<exists>t \<in> set (txs s). t_txid t = txid \<and> dtx_TxID tx = txid \<and>
     dtx_Inputs tx = map scan_input (filter (\<lambda>i. i_transaction_id i = t_id t) (inputs s)) \<and>
     dtx_Outputs tx = map scan_output (filter (\<lambda>r. o_transaction_id r = t_id t) (outputs s)))"

lemma calm_GetTxByTxID:
  assumes "wf_db s"
  shows "yields (calm s) (GetTxByTxID d txid) (full_tx s txid)"
proof -
  let ?q = "QueryRow (\<lambda>p s. (first_row (tx_rows s txid) p, s))"
  have row: "yields (calm s) ?q (\<lambda>x. fst x \<in> set (txs s) \<and> t_txid (fst x) = txid)"
  proof (rule calm.yields_QueryRow)
    fix p x assume "fst (first_row (tx_rows s txid) p, s) = Inr x"
    then have "x \<in> set (tx_rows s txid)" by (auto dest: first_row_Some)
    then show "fst x \<in> set (txs s) \<and> t_txid (fst x) = txid" by (auto simp: tx_rows_def)
  qed simp
  have scan: "dtx_TxID (scan_tx fmt now x) = t_txid (fst x)" for fmt now x
    by (cases x) (simp add: scan_tx_def)
  have "yields (calm s) (iowrapf ''failed to get transaction from txid''
    (iobind ?q (\<lambda>r. let t = scan_tx (c_fmt w) (c_now w) r in
     iobind (GetInputsByTxID d (dtx_TxID t)) (\<lambda>is.
     iobind (GetOutputsByTxID d (dtx_TxID t) None) (\<lambda>os.
     ioret (t\<lparr>dtx_Inputs := is, dtx_Outputs := os\<rparr>)))))) (full_tx s txid)" for w :: conn
    unfolding Let_def scan
  proof (rule yields_iowrapf, rule yields_iobind [OF row])
    fix x :: "tx_row \<times> block_row option" assume x: "fst x \<in> set (txs s) \<and> t_txid (fst x) = txid"
    then have t: "fst x \<in> set (txs s)" ..
    have "filter (\<lambda>r. t_txid (tx_of s r) = t_txid (fst x)) (outputs s) =
        filter (\<lambda>r. o_transaction_id r = t_id (fst x)) (outputs s)"
      using outputs_of_tx [OF assms t] by (intro filter_cong) simp_all
    then show "yields (calm s) (iobind (GetInputsByTxID d (t_txid (fst x))) (\<lambda>is.
       iobind (GetOutputsByTxID d (t_txid (fst x)) None) (\<lambda>os.
       ioret (scan_tx (c_fmt w) (c_now w) x\<lparr>dtx_Inputs := is, dtx_Outputs := os\<rparr>)))) (full_tx s txid)"
      by (intro yields_iobind [OF calm_GetInputs [OF assms t]] yields_iobind [OF calm_GetOutputs [OF assms]] yields_ioret)
        (use x in \<open>auto simp: full_tx_def scan\<close>)
  qed
  from yields_dep [OF this] show ?thesis unfolding GetTxByTxID_def [abs_def] .
qed

lemma spent_outputs_unique:
  assumes "wf_db s"
  shows "spent_outputs s txid n = [] \<or> (\<exists>r. spent_outputs s txid n = [r])"
proof -
  have "distinct (spent_outputs s txid n)"
    using wf_dbD(6) [OF assms] unfolding spent_outputs_def by (simp add: distinct_map)
  moreover have "r = r'" if "r \<in> set (spent_outputs s txid n)" "r' \<in> set (spent_outputs s txid n)" for r r'
    using that tx_of_inj [OF assms, of r r'] unfolding spent_outputs_def set_filter mem_Collect_eq by metis
  ultimately show ?thesis
    by (cases "spent_outputs s txid n" rule: remdups_adj.cases) (simp, blast, metis distinct_length_2_or_more list.set_intros)
qed

lemma calm_spent:
  assumes "wf_db s"
  shows "yields (calm s) (GetOutputsByTxID d txid (Some n))
    (\<lambda>os. (\<Sum>r\<leftarrow>spent_outputs s txid n. o_amount r) = (case os of [] \<Rightarrow> 0 | o1 # _ \<Rightarrow> out_SatAmount o1))"
proof (rule yields_mono [OF calm_GetOutputs [OF assms]])
  fix os assume "os = map scan_output (filter (\<lambda>r. t_txid (tx_of s r) = txid \<and>
    (case Some n of None \<Rightarrow> True | Some n \<Rightarrow> o_vout r = n)) (outputs s))"
  then have os: "os = map scan_output (spent_outputs s txid n)" by (simp add: spent_outputs_def)
  show "(\<Sum>r\<leftarrow>spent_outputs s txid n. o_amount r) = (case os of [] \<Rightarrow> 0 | o1 # _ \<Rightarrow> out_SatAmount o1)"
    using spent_outputs_unique [OF assms, of txid n] unfolding os by (auto simp: scan_output_def)
qed

lemma yields_list:
  "(xs = [] \<Longrightarrow> yields C a P) \<Longrightarrow> (\<And>y ys. xs = y # ys \<Longrightarrow> yields C (f y ys) P) \<Longrightarrow>
    yields C (case xs of [] \<Rightarrow> a | y # ys \<Rightarrow> f y ys) P"
  by (cases xs) simp_all

lemma calm_processTxInput:
  assumes "wf_db s"
  shows "yields (calm s) (processTxInput bu d v)
    (\<lambda>x. vi_ValueSat x = (\<Sum>r\<leftarrow>spent_outputs s (in_SpentTx v) (in_SpentVout v). o_amount r))"
  unfolding processTxInput_def Let_def
  by (rule yields_iobind [OF yields_iowrapf [OF calm_spent [OF assms]]], rule yields_list, rule yields_ioret, simp,
      rule yields_iobind [OF yields_iowrapf [OF yields_any]], rule yields_ioret, simp)

definition amounts :: "db \<Rightarrow> string \<Rightarrow> insightTx \<Rightarrow> bool" where
  "amounts s txid x \<longleftrightarrow> (\<exists>t \<in> set (txs s). t_txid t = txid \<and> it_TxID x = txid \<and>
     it_ValueOut x = ToBTC (total_out s t) \<and>
     (\<not> it_IsCoinBase x \<longrightarrow> it_ValueIn x = ToBTC (total_in s t) \<and>
        it_Fees x = Some (ToBTC (total_in s t - total_out s t))))"

lemma sum_list_member: "\<forall>x \<in> set xs. 0 \<le> x \<Longrightarrow> x \<in> set xs \<Longrightarrow> x \<le> sum_list xs" for xs :: "int list"
  using member_le_sum_list by fastforce

lemma map_eq_list_all2: "list_all2 (\<lambda>x y. f y = g x) xs ys \<Longrightarrow> map f ys = map g xs"
  by (induction rule: list_all2_induct) simp_all

lemma shown_amounts:
  assumes "list_all2 (\<lambda>v x. vo_N x = out_Vout v \<and> vo_Value x = Sprintf_8f (ToBTC (out_SatAmount v))) vs vouts"
    "rmapM (\<lambda>v. wrapf msg (ToSatoshi (vo_Value v))) vouts = Inr outs"
    "\<forall>v \<in> set vs. 0 \<le> out_SatAmount v \<and> out_SatAmount v < 2 ^ 26 * 10 ^ 8"
  shows "outs = map out_SatAmount vs"
  using assms
proof (induction vs vouts arbitrary: outs rule: list_all2_induct)
  case (Cons v vs x vouts)
  then have "ToSatoshi (vo_Value x) = Inr (out_SatAmount v)" using ToSatoshi_shown by simp
  then show ?case using Cons by (auto simp: rbind_eq_Inr_conv)
qed simp

lemma in_supplyD:
  assumes "in_supply s" "t \<in> set (txs s)"
  shows "\<forall>r \<in> set (filter (\<lambda>r. o_transaction_id r = t_id t) (outputs s)). 0 \<le> o_amount r \<and> o_amount r < 2 ^ 26 * 10 ^ 8"
    "add64 (map o_amount (filter (\<lambda>r. o_transaction_id r = t_id t) (outputs s))) = total_out s t"
    "add64 (map (\<lambda>i. \<Sum>r\<leftarrow>spent_outputs s (i_spent_txid i) (i_spent_vout i). o_amount r)
      (filter (\<lambda>i. i_transaction_id i = t_id t) (inputs s))) = total_in s t"
    "i64 (total_in s t - total_out s t) = total_in s t - total_out s t"
proof -
  let ?os = "filter (\<lambda>r. o_transaction_id r = t_id t) (outputs s)"
  have nonneg: "0 \<le> o_amount r" if "r \<in> set (outputs s)" for r using assms(1) that by (simp add: in_supply_def)
  have bound: "total_out s t < 2 ^ 26 * 10 ^ 8" "total_in s t < 2 ^ 26 * 10 ^ 8" using assms by (simp_all add: in_supply_def)
  have spent: "0 \<le> (\<Sum>r\<leftarrow>spent_outputs s a n. o_amount r)" for a n
    by (intro sum_list_nonneg) (auto simp: spent_outputs_def nonneg)
  show "\<forall>r \<in> set ?os. 0 \<le> o_amount r \<and> o_amount r < 2 ^ 26 * 10 ^ 8"
  proof
    fix r assume r: "r \<in> set ?os"
    then have "o_amount r \<le> total_out s t"
      unfolding total_out_def by (intro sum_list_member) (auto simp: nonneg)
    then show "0 \<le> o_amount r \<and> o_amount r < 2 ^ 26 * 10 ^ 8" using bound(1) r nonneg by simp
  qed
  show "add64 (map o_amount ?os) = total_out s t"
    unfolding total_out_def by (rule add64_sum) (use nonneg bound(1) in \<open>auto simp: total_out_def\<close>)
  show "add64 (map (\<lambda>i. \<Sum>r\<leftarrow>spent_outputs s (i_spent_txid i) (i_spent_vout i). o_amount r)
      (filter (\<lambda>i. i_transaction_id i = t_id t) (inputs s))) = total_in s t"
    unfolding total_in_def by (rule add64_sum) (use spent bound(2) in \<open>auto simp: total_in_def\<close>)
  have "0 \<le> total_out s t" "0 \<le> total_in s t"
    unfolding total_out_def total_in_def by (intro sum_list_nonneg; auto simp: nonneg spent)+
  then show "i64 (total_in s t - total_out s t) = total_in s t - total_out s t"
    using bound by (simp add: i64_id in_i64_def)
qed

lemma calm_getTx:
  assumes "wf_db s" "in_supply s"
  shows "yields (calm s) (getTx bu d lb txid) (amounts s txid)"
  unfolding getTx_def
proof (rule yields_iobind [OF yields_iowrapf [OF calm_GetTxByTxID [OF assms(1)]]],
    rule yields_iobind [OF yields_iomapM [OF calm_processTxInput [OF assms(1)]]],
    rule yields_iobind [OF yields_iomapM [OF calm.yields_processTxOutput]],
    rule yields_iobind [OF yields_result], rule yields_iobind [OF yields_any],
    rule yields_iobind [OF yields_any], rule yields_ioret)
  fix tx :: DbTx and vins :: "insightVin list" and vouts :: "insightVout list" and outs ts n
  assume tx: "full_tx s txid tx"
    and vins: "list_all2 (\<lambda>v x. vi_ValueSat x = (\<Sum>r\<leftarrow>spent_outputs s (in_SpentTx v) (in_SpentVout v). o_amount r)) (dtx_Inputs tx) vins"
    and vouts: "list_all2 (\<lambda>v x. vo_N x = out_Vout v \<and> vo_Value x = Sprintf_8f (ToBTC (out_SatAmount v))) (dtx_Outputs tx) vouts"
    and outs: "rmapM (\<lambda>v. wrapf ''failed to parse value in transaction'' (ToSatoshi (vo_Value v))) vouts = Inr outs"
  from tx obtain t where t: "t \<in> set (txs s)" "t_txid t = txid" "dtx_TxID tx = txid"
    "dtx_Inputs tx = map scan_input (filter (\<lambda>i. i_transaction_id i = t_id t) (inputs s))"
    "dtx_Outputs tx = map scan_output (filter (\<lambda>r. o_transaction_id r = t_id t) (outputs s))"
    unfolding full_tx_def by blast
  note bounds = in_supplyD [OF assms(2) t(1)]
  have "outs = map out_SatAmount (dtx_Outputs tx)"
    using shown_amounts [OF vouts outs] bounds(1) unfolding t(5) by (simp add: scan_output_def)
  then have "outs = map o_amount (filter (\<lambda>r. o_transaction_id r = t_id t) (outputs s))"
    unfolding t(5) by (simp add: scan_output_def comp_def)
  then have vo: "add64 outs = total_out s t" using bounds(2) by simp
  have "map vi_ValueSat vins = map (\<lambda>i. \<Sum>r\<leftarrow>spent_outputs s (i_spent_txid i) (i_spent_vout i). o_amount r)
      (filter (\<lambda>i. i_transaction_id i = t_id t) (inputs s))"
    using map_eq_list_all2 [OF vins] unfolding t(4) by (simp add: scan_input_def comp_def)
  then have vi: "add64 (map vi_ValueSat vins) = total_in s t" using bounds(3) by simp
  show "amounts s txid (insight_tx tx vins vouts outs ts n)"
    unfolding amounts_def by (intro bexI [OF _ t(1)]) (simp add: insight_tx_def Let_def t(2,3) vo vi bounds(4))
qed

lemma calm_getTxs:
  assumes "wf_db s" "in_supply s"
  shows "yields (calm s) (getTxs ord bu d txids) (\<lambda>ts. \<forall>x \<in> set ts. amounts s (it_TxID x) x)"
  unfolding getTxs_def
proof (rule yields_iobind [OF yields_iowrapf [OF calm.yields_LastBlock]],
    rule yields_iobind [OF yields_iomapM [OF calm_getTx [OF assms]]], rule yields_ioret)
  fix ts assume "list_all2 (amounts s) txids ts"
  then have "\<forall>x \<in> set ts. \<exists>txid. amounts s txid x" by (metis list_all2_conv_all_nth in_set_conv_nth)
  then have "\<forall>x \<in> set ts. amounts s (it_TxID x) x" by (metis amounts_def)
  then show "\<forall>x \<in> set (sort_key (\<lambda>t. - it_BlockHeight t) (reorder ord ts)). amounts s (it_TxID x) x" by simp
qed



section \<open>The history of addresses\<close>

lemma yields_or_error:
  assumes "yields C m P" "\<And>x. P x \<Longrightarrow> yields C (f x) Q" "Q (Http_Error code)"
  shows "yields C (or_error code m f) Q"
proof (rule yieldsI)
  fix w r w' assume w: "C w" "or_error code m f w = (r, w')"
  obtain q w1 where q: "m w = (q, w1)" by (metis surj_pair)
  note m = yieldsD [OF assms(1) w(1) q]
  show "C w' \<and> (\<forall>x. r = Inr x \<longrightarrow> Q x)"
  proof (cases q)
    case (Inl e)
    then show ?thesis using w(2) q m(1) assms(3) by (auto simp: or_error_def split: fault.splits)
  next
    case (Inr x)
    then have "f x w1 = (r, w')" using w(2) q by (simp add: or_error_def)
    then show ?thesis using yieldsD [OF assms(2) [OF m(2) [OF Inr]] m(1)] by blast
  qed
qed

lemma yields_fst:
  assumes "yields C m P" "\<And>w. C w \<Longrightarrow> fst (m w) = r"
  shows "yields C m (\<lambda>x. r = Inr x)"
proof (rule yieldsI)
  fix w q w' assume w: "C w" "m w = (q, w')"
  show "C w' \<and> (\<forall>x. q = Inr x \<longrightarrow> r = Inr x)"
    using yieldsD(1) [OF assms(1) w] assms(2) [OF w(1)] w(2) by simp
qed

context reader
begin

lemma yields_GetTxIDs: "yields C (GetTxIDsByAddresses d addrs l off) (\<lambda>x. True)"
  unfolding GetTxIDsByAddresses_def
  by (rule yields_iobind [OF yields_iowrapf [OF yields_Query [where P = "\<lambda>x. True"]]], simp, rule yields_ioret, simp)

lemma yields_GetTotal: "yields C (GetTotalTxsByAddresses d addrs) (\<lambda>x. True)"
  unfolding GetTotalTxsByAddresses_def by (intro yields_iowrapf yields_QueryRow) simp_all

end

lemma calm_history:
  assumes "wf_db s"
  shows "yields (calm s) (GetTxIDsByAddresses d addrs l off) (\<lambda>ids. limited l off (history addrs s) = Inr ids)"
    "yields (calm s) (GetTotalTxsByAddresses d addrs) (\<lambda>n. n = int (length (history addrs s)))"
proof -
  have q: "fst (GetTxIDsByAddresses d addrs l off w) =
      wrapf ''failed to get tx details from addresses'' (limited l off (history addrs s))"
    "fst (GetTotalTxsByAddresses d addrs w) = Inr (int (length (history addrs s)))" if "calm s w" for w
    using address_history_queries [of w d addrs l off] that assms by (simp_all add: undisturbed)
  from yields_fst [OF calm.yields_GetTxIDs q(1)]
  show "yields (calm s) (GetTxIDsByAddresses d addrs l off) (\<lambda>ids. limited l off (history addrs s) = Inr ids)"
    by (rule yields_mono) (simp_all add: wrapf_eq_Inr_conv)
  from yields_fst [OF calm.yields_GetTotal q(2)]
  show "yields (calm s) (GetTotalTxsByAddresses d addrs) (\<lambda>n. n = int (length (history addrs s)))"
    by (rule yields_mono) simp_all
qed

text \<open>The part of a history that a page shows.\<close>

definition page_of :: "string list \<Rightarrow> insightTxHistoryByAddrs \<Rightarrow> bool" where
  "page_of ids h \<longleftrightarrow> th_TotalItems h = int (length ids) \<and> 0 \<le> th_From h \<and>
     th_To h = th_From h + int (length (th_Txs h)) \<and> length (th_Txs h) \<le> 50 \<and>
     mset (map it_TxID (th_Txs h)) = mset (take (length (th_Txs h)) (drop (nat (th_From h)) ids)) \<and>
     by_height (th_Txs h) \<and> (\<forall>t \<in> set (th_Txs h). well_formed t)"

lemma page_bounds:
  assumes "TraditionalPagintion from to DEFAULT_TXS MAX_TRANSACTIONS = Inr tp"
    "limited (LimitClause tp) (OffsetClause tp) ids = Inr xs" "int (length ids) < 2 ^ 62"
  shows "0 \<le> FromPage tp \<and> length xs \<le> 50 \<and> xs = take (length xs) (drop (nat (FromPage tp)) ids) \<and>
    (if int (length xs) < i64 (ToPage tp - FromPage tp) then i64 (FromPage tp + int (length xs)) else ToPage tp) =
      FromPage tp + int (length xs)"
proof -
  have lim: "in_i64 DEFAULT_TXS" "0 < DEFAULT_TXS" "DEFAULT_TXS \<le> MAX_TRANSACTIONS" "MAX_TRANSACTIONS < 2 ^ 63"
    by (simp_all add: DEFAULT_TXS_def MAX_TRANSACTIONS_def in_i64_def)
  note range = pages_range [OF assms(1) lim(1)]
  obtain n where n: "LimitClause tp = Some n" "n = i64 (ToPage tp - FromPage tp)" "n \<le> 50"
    "FromPage tp = (case OffsetClause tp of None \<Rightarrow> 0 | Some m \<Rightarrow> m)"
    using window_queried [OF assms(1) lim(2-4)] unfolding MAX_TRANSACTIONS_def by blast
  have f: "0 \<le> FromPage tp" "0 \<le> n" "xs = take (nat n) (drop (nat (FromPage tp)) ids)"
    using assms(2) n(1,4) by (auto simp: limited_def split: option.splits if_splits)
  have len: "length xs = min (nat n) (length ids - nat (FromPage tp))" unfolding f(3) by (simp add: min.commute)
  have small: "FromPage tp + int (length xs) < 2 ^ 63" "int (length xs) \<le> n"
    using len f(1,2) assms(3) range(1) by (auto simp: in_i64_def)
  have "i64 (FromPage tp + int (length xs)) = FromPage tp + int (length xs)"
    using f(1) small(1) by (intro i64_id) (simp add: in_i64_def)
  moreover have "ToPage tp = FromPage tp + n" if "int (length xs) = n"
  proof -
    have "i64 (FromPage tp + n) = FromPage tp + n" using small(1) f(1,2) that by (intro i64_id) (simp add: in_i64_def)
    moreover have "i64 (FromPage tp + n) = i64 (ToPage tp)" unfolding n(2) by (simp add: i64_def mod_simps)
    ultimately show ?thesis using i64_id [OF range(2)] by simp
  qed
  ultimately have "(if int (length xs) < i64 (ToPage tp - FromPage tp) then i64 (FromPage tp + int (length xs)) else ToPage tp) =
      FromPage tp + int (length xs)" using small(2) n(2) by auto
  moreover have "xs = take (length xs) (drop (nat (FromPage tp)) ids)" using f(3) len by (metis append_eq_conv_conj append_take_drop_id)
  ultimately show ?thesis using f(1) small(2) n(3) by simp
qed

lemma calm_TxHistoryByAddrs:
  assumes "wf_db s" "\<forall>b \<in> set (blocks s). in_i32 (height b)" "rq_ctx r ''addrs'' = Some addrs"
    "int (length (history (splitAndTrim addrs) s)) < 2 ^ 62"
  shows "yields (calm s) (TxHistoryByAddrs ord bu d r)
    (\<lambda>a. \<forall>h. a = InHistory h \<longrightarrow> page_of (history (splitAndTrim addrs) s) h)"
proof -
  have "ctx_addrs r = Inr addrs" using assms(3) by (simp add: ctx_addrs_def)
  note ctx = yields_result [of "calm s" "ctx_addrs r", unfolded this sum.inject]
  show ?thesis
    unfolding TxHistoryByAddrs_def \<open>ctx_addrs r = Inr addrs\<close> Let_def
  proof (rule yields_iobind [OF ctx], rule yields_or_error [OF yields_result],
      rule yields_or_error [OF calm_history(1) [OF assms(1)]],
      rule yields_or_error [OF calm.yields_getTxs [OF assms(1,2)]],
      rule yields_or_error [OF calm_history(2) [OF assms(1)]], rule yields_ioret)
    fix a tp ids ts n
    assume a: "addrs = a" and tp: "TraditionalPagintion (rq_query r ''from'') (rq_query r ''to'') DEFAULT_TXS MAX_TRANSACTIONS = Inr tp"
      and ids: "limited (LimitClause tp) (OffsetClause tp) (history (splitAndTrim a) s) = Inr ids"
      and ts: "(\<forall>t \<in> set ts. well_formed t) \<and> by_height ts \<and> mset (map it_TxID ts) = mset ids"
      and n: "n = int (length (history (splitAndTrim a) s))"
    have len: "length ts = length ids" using ts by (metis length_map size_mset)
    show "\<forall>h. InHistory \<lparr>th_TotalItems = n, th_From = FromPage tp,
          th_To = if int (length ts) < i64 (ToPage tp - FromPage tp) then i64 (FromPage tp + int (length ts)) else ToPage tp,
          th_Txs = ts\<rparr> = InHistory h \<longrightarrow> page_of (history (splitAndTrim addrs) s) h"
    proof -
      have "mset (map it_TxID ts) = mset (take (length ts) (drop (nat (FromPage tp)) (history (splitAndTrim a) s)))"
        using page_bounds [OF tp ids] assms(4) ts unfolding len a by metis
      then show ?thesis using page_bounds [OF tp ids, folded len] assms(4) ts n unfolding page_of_def a by simp
    qed
  qed simp_all
qed

text \<open>
  C8: the history of addresses is paged correctly.  On an undisturbed connection, an answer of
  \<open>TxHistoryByAddrs\<close> reports the number of transactions of the addresses, its bounds differ by the
  number of transactions it contains, which is at most 50, and these are the transactions at the
  positions of the bounds in the history, newest first, sorted by falling height and well formed.
\<close>

theorem history_pages:
  assumes "wf_db (c_db w)" "\<forall>b \<in> set (blocks (c_db w)). in_i32 (height b)" "c_plans w = []"
    "rq_ctx r ''addrs'' = Some addrs" "int (length (history (splitAndTrim addrs) (c_db w))) < 2 ^ 62"
    "TxHistoryByAddrs ord bu d r w = (Inr (InHistory h), w')"
  shows "th_TotalItems h = int (length (history (splitAndTrim addrs) (c_db w))) \<and> 0 \<le> th_From h \<and>
    th_To h = th_From h + int (length (th_Txs h)) \<and> length (th_Txs h) \<le> 50 \<and>
    mset (map it_TxID (th_Txs h)) = mset (take (length (th_Txs h)) (drop (nat (th_From h)) (history (splitAndTrim addrs) (c_db w)))) \<and>
    by_height (th_Txs h) \<and> (\<forall>t \<in> set (th_Txs h). well_formed t)"
proof -
  have "page_of (history (splitAndTrim addrs) (c_db w)) h"
    using yieldsD(2) [OF calm_TxHistoryByAddrs [OF assms(1,2,4,5)] _ assms(6)] assms(3) by simp
  then show ?thesis unfolding page_of_def .
qed

definition page_request :: request where
  "page_request = \<lparr>rq_path = [], rq_param = (\<lambda>k. []), rq_query = (\<lambda>k. []), rq_ctx = [''addrs'' \<mapsto> ''B''], rq_type = [],
     rq_parsed = Inr (), rq_form = Inr [], rq_jsonbody = Inr []\<rparr>"

lemma sample_history: "splitAndTrim ''B'' = [''B'']" "history [''B''] sample_db = [''q'']"
  by code_simp+

lemma sample_page: "\<exists>x. TxHistoryByAddrs [] plain_btcutil sample_handle page_request shown_conn =
  (Inr (InHistory \<lparr>th_TotalItems = 1, th_From = 0, th_To = 1, th_Txs = [x]\<rparr>), shown_conn)"
proof -
  have tp: "TraditionalPagintion [] [] 10 50 = Inr \<lparr>LimitClause = Some 10, OffsetClause = None, FromPage = 0, ToPage = 10\<rparr>"
    using Atoi_empty by (auto simp: TraditionalPagintion_def i64_id in_i64_def split: prod.splits option.splits)
  have "limited (Some 10) None [''q''] = Inr [''q'']" by (simp add: limited_def)
  then have "fst (GetTxIDsByAddresses sample_handle [''B''] (Some 10) None shown_conn) = Inr [''q'']"
    "fst (GetTotalTxsByAddresses sample_handle [''B''] shown_conn) = Inr 1"
    using address_history_queries [of shown_conn sample_handle "[''B'']" "Some 10" None] sample_db_wf sample_history(2) by simp_all
  note q = shown_run [OF shown.yields_GetTxIDs this(1)] shown_run [OF shown.yields_GetTotal this(2)]
  obtain x where "getTxs [] plain_btcutil sample_handle [''q''] shown_conn = (Inr [x], shown_conn)" using shown_txs by blast
  then show ?thesis
    using tp q sample_history(1)
    by (simp add: TxHistoryByAddrs_def ctx_addrs_def page_request_def or_error_def iobind_def iolift_def
        DEFAULT_TXS_def MAX_TRANSACTIONS_def i64_id in_i64_def Let_def)
qed

theorem history_pages_witness:
  "\<exists>h. fst (TxHistoryByAddrs [] plain_btcutil sample_handle page_request shown_conn) = Inr (InHistory h) \<and>
    th_TotalItems h = 1 \<and> map it_TxID (th_Txs h) = [''q'']"
proof -
  obtain x where x: "TxHistoryByAddrs [] plain_btcutil sample_handle page_request shown_conn =
    (Inr (InHistory \<lparr>th_TotalItems = 1, th_From = 0, th_To = 1, th_Txs = [x]\<rparr>), shown_conn)" (is "_ = (Inr (InHistory ?h), _)")
    using sample_page by blast
  have "rq_ctx page_request ''addrs'' = Some ''B''" by (simp add: page_request_def)
  moreover have "\<forall>b \<in> set (blocks sample_db). in_i32 (height b)"
    by (simp add: sample_db_def new_block_row_def hdr_def in_i32_def)
  ultimately have "mset (map it_TxID (th_Txs ?h)) = mset (take 1 [''q''])"
    using history_pages [OF _ _ _ _ _ x, of "''B''"] sample_db_wf sample_history by simp
  then show ?thesis using x by simp
qed

end
