(* ===== verification/Spec2Isabelle.thy ===== *)
theory Spec2Isabelle
  imports Monitor Insight_Amounts
begin

text \<open>
  Verification of \<open>coinquery\<close>, a Go system that copies the chains of Bitcoin-like coins into a PostgreSQL
  database and serves them over HTTP.  File names below are relative to \<open>src/V2\<close>.

  \<^bold>\<open>The system.\<close>  The \<^emph>\<open>indexer\<close> asks a node for blocks (\<open>pkg/blockchain/utxo\<close>, over the JSON-RPC client of
  \<open>pkg/http\<close>) and writes them with the \<^emph>\<open>database layer\<close> (\<open>pkg/postgres\<close>), which calls the stored procedures of
  \<open>build/ingester-sql-ddl\<close>.  The \<^emph>\<open>block validator\<close> compares stored blocks with the node and repairs them, the
  \<^emph>\<open>transaction validator\<close> deletes dropped transactions, the \<^emph>\<open>monitor\<close> cleans up after reorganisations.  The
  \<^emph>\<open>API\<close> (\<open>pkg/api\<close>) reads the database.  All use the small packages under \<open>internal\<close>.

  \<^bold>\<open>Conventions.\<close>  A fallible function returns \<open>'a result\<close>: a value, or an error, a panic or the end of the
  process (\<open>log.Fatal\<close>), as \<open>Inl (Err e)\<close>, \<open>Inl (Panic s)\<close> and \<open>Inl (Exit s)\<close>.  A stateful one is an
  \<open>('w, 'a) io\<close>, a function from a world to a result and the next world; the world of the database layer is the
  connection \<open>conn\<close>, that of the node client whatever the network record \<open>net\<close> works on.  Go's \<open>int\<close> is \<open>int\<close>
  with \<open>i64\<close> applied where a sum can leave the range; bytes and checksums are words; \<open>float64\<close> is the rational
  it represents, rounded to 53 bits by \<open>rnd53\<close>.  A nil pointer is \<open>None\<close>, and \<open>deref\<close> panics on it.  Error
  texts keep the constant part of the message.

  \<^item> \<open>Prelude\<close>, \<open>GoStrings\<close>: results, 64-bit arithmetic, the used parts of \<open>strings\<close>, \<open>strconv\<close>,
    \<open>encoding/hex\<close>.
  \<^item> \<open>CashAddr\<close> (\<open>pkg/cashaddr/cashaddr.go\<close>) with \<open>CashAddr_Checksum\<close>, \<open>CashAddr_Bits\<close>, \<open>CashAddr_Codec\<close>: the
    address codec on words; the checksum is a linear code that detects every burst of up to eight symbols,
    regrouping of bits is equal to a reference on bit strings, encoding and decoding are inverse, and decoding
    panics exactly on the stated inputs.
  \<^item> \<open>Convert\<close> (\<open>internal/convert\<close>): amounts and timestamps; printing and reading an amount is lossless up to
    \<open>2\<^sup>2\<^sup>6\<close> coins and loses a satoshi above.
  \<^item> \<open>Retry\<close> (\<open>internal/retry\<close>): both retry loops, bounded and with the delays they wait.
  \<^item> \<open>Config\<close> (\<open>config/config.go\<close>), \<open>Utxo_Types\<close>, \<open>HttpClient\<close>, \<open>Utxo_Rpc\<close>: configuration, node data, requests
    and decoders; a batch is all or nothing, and the detour for dogecoin yields the same blocks.
  \<^item> \<open>Db\<close>, \<open>Db_Blocks\<close>, \<open>Db_Inv\<close>, \<open>Db_Chain\<close>: tables and stored procedures.  Every reachable database satisfies
    the integrity constraints; inserting a new block terminates and keeps the active blocks a linked chain.
  \<^item> \<open>Postgres\<close>, \<open>Postgres_Read\<close>, \<open>Postgres_Write\<close> (\<open>pkg/postgres/postgres.go\<close>): every query and insertion on a
    connection that can fail before or after a statement took effect, or break off a result set.  The locale
    \<open>retried_call\<close> states what makes a procedure safe to retry; \<open>transaction_insert\<close>, \<open>delete_orphans\<close> and
    \<open>delete_invalid_txs\<close> are its interpretations.
  \<^item> \<open>Reorder\<close>: the locale \<open>reorder_buffer\<close> for the stages that put results back in order, interpreted by the
    indexer's sorted slice and the block validator's map.
  \<^item> \<open>Indexer\<close>, \<open>Indexer_Order\<close>, \<open>Indexer_Pipe\<close> (\<open>cmd/indexer/main.go\<close>): the stages as functions, the concurrent
    ones as step relations; the pipeline cannot deadlock and stores every transaction under its block.
  \<^item> \<open>BlockValidator\<close>, \<open>BlockValidator_Repair\<close> (\<open>cmd/blockvalidator/main.go\<close>): the validation ends when and only
    when everything is repaired; its recorded progress can run ahead of a repair.
  \<^item> \<open>TxValidator\<close> (\<open>cmd/txvalidator/main.go\<close>), \<open>Monitor\<close> (\<open>cmd/monitor/main.go\<close>): only dropped transactions,
    and transactions of orphaned blocks, are deleted.
  \<^item> \<open>Pagination\<close>, \<open>Insight\<close> (\<open>pkg/api/helpers.go\<close>, \<open>pkg/api/insight\<close>): the handlers of the public API as functions
    from a request to an answer.  \<open>Insight_Bch\<close>: the translation of Bitcoin Cash addresses is inverted on the
    way out.  \<open>Insight_Reads\<close>: a small program logic for reading operations; the locale \<open>reader\<close> is interpreted
    by an arbitrary and by an undisturbed connection, and the answers are well formed on the first.
    \<open>Insight_Amounts\<close>: on the second, amounts are exact and the pages of a history are the stated windows.

  \<^bold>\<open>Loops and bounds.\<close>  Every recursive definition terminates except \<open>processBlockHeights\<close>, which follows a
  growing chain and is a partial function, and the walks along predecessor links in \<open>Db\<close>, which return
  \<open>None\<close> when they do not end; that they return is proved under the stated conditions.  No fuel is used in the
  programs.

  \<^bold>\<open>What is assumed.\<close>  The transport, \<open>net/url\<close> resolution, the addresses of btcd's \<open>chaincfg\<close> and \<open>btcutil\<close>, and
  the choice PostgreSQL makes among equal rows are parameters.  Concurrent goroutines interleave at the level
  of their database calls and channel operations.

  \<^bold>\<open>Not modelled.\<close>  Logging and pretty printing (\<open>internal/log\<close>, \<open>internal/pretty\<close>) have no effect on the data.
  \<open>cmd/indexer/mocks.go\<close> and \<open>pkg/api/insight/types_easyjson.go\<close> are generated.  \<open>src/V1/deploy/gen\<close> fills
  text templates.  The TypeScript and shell parts of \<open>src/services\<close> and \<open>src/V1\<close> are separate programs.
\<close>

end
